theory Spec2Isabelle
  imports Complex_Main "HOL-Library.Sublist" "HOL-Library.AList" "HOL-Library.Multiset"
begin

section \<open>Text\<close>

text \<open>
  A Python \<open>str\<close> is a sequence of Unicode code points; the arrow U+2192 is one of them,
  so text is a list of code points and not a list of bytes.
\<close>

type_synonym pystr = "nat list"

definition ascii :: "string \<Rightarrow> pystr" where
  "ascii = map of_char"

text \<open>
  \<open>str.strip\<close>, \<open>str.isdigit\<close> and \<open>int\<close> consult the interpreter's Unicode tables, which
  are no part of the repository. Below 128 the classes are written out; above, they are
  read from a parameter. \<open>uni_int\<close> answers for \<open>int\<close> on every text that is not a plain
  run of ASCII digits (\<open>Inl\<close> carries the message of the \<open>ValueError\<close>). The interpreter's
  optional cap on the length of a converted digit string is not modelled.
\<close>

record unicode_db =
  uni_isspace :: "nat \<Rightarrow> bool"
  uni_isdigit :: "nat \<Rightarrow> bool"
  uni_int :: "pystr \<Rightarrow> pystr + int"

definition ascii_db :: unicode_db where
  "ascii_db = \<lparr>uni_isspace = (\<lambda>c. False), uni_isdigit = (\<lambda>c. False),
               uni_int = (\<lambda>s. Inl (ascii ''invalid literal for int()''))\<rparr>"

definition ascii_digit :: "nat \<Rightarrow> bool" where
  "ascii_digit c = (48 \<le> c \<and> c \<le> 57)"

definition isspace_char :: "unicode_db \<Rightarrow> nat \<Rightarrow> bool" where
  "isspace_char db c =
     (if c < 128 then (9 \<le> c \<and> c \<le> 13) \<or> (28 \<le> c \<and> c \<le> 32) else uni_isspace db c)"

definition isdigit_char :: "unicode_db \<Rightarrow> nat \<Rightarrow> bool" where
  "isdigit_char db c = (if c < 128 then ascii_digit c else uni_isdigit db c)"

definition strip :: "unicode_db \<Rightarrow> pystr \<Rightarrow> pystr" where
  "strip db s = rev (dropWhile (isspace_char db) (rev (dropWhile (isspace_char db) s)))"

definition isdigit :: "unicode_db \<Rightarrow> pystr \<Rightarrow> bool" where
  "isdigit db s = (s \<noteq> [] \<and> list_all (isdigit_char db) s)"

definition startswith :: "pystr \<Rightarrow> pystr \<Rightarrow> bool" where
  "startswith s p = prefix p s"

text \<open>\<open>sub in s\<close> on strings: \<open>sub\<close> occurs in \<open>s\<close> as a contiguous run.\<close>

fun contains :: "pystr \<Rightarrow> pystr \<Rightarrow> bool" where
  "contains sub [] = (sub = [])"
| "contains sub (c # cs) = (prefix sub (c # cs) \<or> contains sub cs)"

text \<open>
  \<open>s.split(sep)\<close> for a non-empty separator: scan from the left, cut at every occurrence,
  resume after it. \<open>cur\<close> holds the current piece, reversed. (An empty separator raises
  in Python; both call sites pass a literal.)
\<close>

function split_from :: "pystr \<Rightarrow> pystr \<Rightarrow> pystr \<Rightarrow> pystr list" where
  "split_from sep cur [] = [rev cur]"
| "split_from sep cur (c # cs) =
     (if sep \<noteq> [] \<and> prefix sep (c # cs)
      then rev cur # split_from sep [] (drop (length sep) (c # cs))
      else split_from sep (c # cur) cs)"
  by pat_completeness auto
termination
  by (relation "measure (\<lambda>(sep, cur, s). length s)") auto

definition split :: "pystr \<Rightarrow> pystr \<Rightarrow> pystr list" where
  "split s sep = split_from sep [] s"

definition arrow :: pystr where
  "arrow = [8594]"

text \<open>\<open>str\<close> of a non-negative and of an arbitrary integer: decimal, no leading zeros.\<close>

fun str_nat :: "nat \<Rightarrow> pystr" where
  "str_nat n = (if n < 10 then [48 + n] else str_nat (n div 10) @ [48 + n mod 10])"

declare str_nat.simps [simp del]

definition str_int :: "int \<Rightarrow> pystr" where
  "str_int i = (if i < 0 then 45 # str_nat (nat (- i)) else str_nat (nat i))"

definition digits_value :: "pystr \<Rightarrow> nat" where
  "digits_value s = foldl (\<lambda>a c. 10 * a + (c - 48)) 0 s"

definition py_int :: "unicode_db \<Rightarrow> pystr \<Rightarrow> pystr + int" where
  "py_int db s =
     (if s \<noteq> [] \<and> list_all ascii_digit s then Inr (int (digits_value s)) else uni_int db s)"

section \<open>The ID parsers\<close>

text \<open>
  Both modules define \<open>parse_id_file\<close>; the file is its list of raw lines. Each step
  function is the body of the \<open>for line in f\<close> loop, \<open>ids\<close> the list being built.
\<close>

definition parse_step_validate :: "unicode_db \<Rightarrow> pystr list \<Rightarrow> pystr \<Rightarrow> pystr list" where
  "parse_step_validate db ids raw =
     (let line = strip db raw in
      if line = [] then ids
      else if contains arrow line then
        (let parts = split line arrow; id_part = strip db (last parts) in
         if id_part \<noteq> [] \<and> isdigit db id_part then ids @ [id_part] else ids)
      else if isdigit db line then ids @ [line]
      else ids)"

definition parse_id_file_validate :: "unicode_db \<Rightarrow> pystr list \<Rightarrow> pystr list" where
  "parse_id_file_validate db f = foldl (parse_step_validate db) [] f"

definition parse_step_coords :: "unicode_db \<Rightarrow> pystr list \<Rightarrow> pystr \<Rightarrow> pystr list" where
  "parse_step_coords db ids raw =
     (let line = strip db raw in
      if line = [] \<or> startswith line (ascii ''#'') then ids
      else if contains arrow line then
        (let parts = split line arrow; id_part = strip db (last parts) in
         if id_part \<noteq> [] \<and> isdigit db id_part then ids @ [id_part] else ids)
      else if contains (ascii ''->'') line then
        (let parts = split line (ascii ''->''); id_part = strip db (last parts) in
         if id_part \<noteq> [] \<and> isdigit db id_part then ids @ [id_part] else ids)
      else if isdigit db line then ids @ [line]
      else ids)"

definition parse_id_file_coords :: "unicode_db \<Rightarrow> pystr list \<Rightarrow> pystr list" where
  "parse_id_file_coords db f = foldl (parse_step_coords db) [] f"

section \<open>Stage A: one remote lookup per ID\<close>

text \<open>
  A worker returns \<open>(root_id, leaf, None)\<close> or \<open>(root_id, None, message)\<close>; the two shapes
  are the constructors of \<open>outcome\<close>. Leaf and root IDs are unsigned.

  The remote call is an effect: \<open>get_leaves\<close> takes the state of the service, the ID and
  \<open>stop_layer\<close>, and returns the list of leaves or the message of the exception raised,
  with the state after the call.
\<close>

datatype outcome = Resolved nat | Failed pystr

type_synonym 's get_leaves = "'s \<Rightarrow> int \<Rightarrow> nat option \<Rightarrow> (pystr + nat list) \<times> 's"

definition get_one_supervoxel ::
  "unicode_db \<Rightarrow> 's get_leaves \<Rightarrow> pystr \<Rightarrow> 's \<Rightarrow> (pystr \<times> outcome) \<times> 's" where
  "get_one_supervoxel db get_leaves root_id s =
     (case py_int db root_id of
        Inl e \<Rightarrow> ((root_id, Failed e), s)
      | Inr n \<Rightarrow>
          (case get_leaves s n None of
             (Inl e, s') \<Rightarrow> ((root_id, Failed e), s')
           | (Inr sv_ids, s') \<Rightarrow>
               (if length sv_ids > 0 then ((root_id, Resolved (hd sv_ids)), s')
                else ((root_id, Failed (ascii ''No supervoxels found'')), s'))))"

definition get_one_l2 ::
  "unicode_db \<Rightarrow> 's get_leaves \<Rightarrow> pystr \<Rightarrow> 's \<Rightarrow> (pystr \<times> outcome) \<times> 's" where
  "get_one_l2 db get_leaves root_id s =
     (case py_int db root_id of
        Inl e \<Rightarrow> ((root_id, Failed e), s)
      | Inr n \<Rightarrow>
          (case get_leaves s n (Some 2) of
             (Inl e, s') \<Rightarrow> ((root_id, Failed e), s')
           | (Inr l2_ids, s') \<Rightarrow>
               (if length l2_ids > 0 then ((root_id, Resolved (hd l2_ids)), s')
                else ((root_id, Failed (ascii ''No L2 chunks found'')), s'))))"

text \<open>
  The \<open>as_completed\<close> loop of both \<open>main\<close>s, run by the one collecting thread. A \<open>dict\<close>
  keeps its keys in insertion order and an assignment to a present key keeps the key's
  place, which is \<open>AList.update\<close>. \<open>completed\<close> lists the workers' results in the order
  the futures complete.
\<close>

type_synonym ('k, 'v) pydict = "('k \<times> 'v) list"

definition collect_step ::
  "(pystr, nat) pydict \<times> (pystr, pystr) pydict \<Rightarrow> pystr \<times> outcome
   \<Rightarrow> (pystr, nat) pydict \<times> (pystr, pystr) pydict" where
  "collect_step maps r =
     (case maps of (id_to_sv, errors) \<Rightarrow>
        (case r of
           (root_id, Resolved sv) \<Rightarrow> (AList.update root_id sv id_to_sv, errors)
         | (root_id, Failed err) \<Rightarrow> (id_to_sv, AList.update root_id err errors)))"

definition collect :: "(pystr \<times> outcome) list \<Rightarrow> (pystr, nat) pydict \<times> (pystr, pystr) pydict" where
  "collect completed = foldl collect_step ([], []) completed"

section \<open>Stage B: batched lookups\<close>

text \<open>\<open>[xs[i : i + n] for i in range(0, len(xs), n)]\<close>, for the literal sizes 5000 and 100.\<close>

function chunks :: "nat \<Rightarrow> 'a list \<Rightarrow> 'a list list" where
  "chunks n xs = (if n = 0 \<or> xs = [] then [] else take n xs # chunks n (drop n xs))"
  by pat_completeness auto
termination
  by (relation "measure (\<lambda>(n, xs). length xs)") auto

declare chunks.simps [simp del]

text \<open>
  The validator: \<open>get_roots\<close> answers a chunk with the list of roots or raises; nothing
  catches it, so the loop stops there. \<open>zip\<close> pairs as far as the shorter list goes.
\<close>

fun roots_loop ::
  "(nat list \<Rightarrow> pystr + nat list) \<Rightarrow> nat list list \<Rightarrow> (nat \<rightharpoonup> nat) \<Rightarrow> pystr + (nat \<rightharpoonup> nat)" where
  "roots_loop get_roots [] sv_to_root = Inr sv_to_root"
| "roots_loop get_roots (chunk # rest) sv_to_root =
     (case get_roots chunk of
        Inl e \<Rightarrow> Inl e
      | Inr new_roots \<Rightarrow>
          roots_loop get_roots rest
            (foldl (\<lambda>m (sv, new_root). m(sv \<mapsto> new_root)) sv_to_root (zip chunk new_roots)))"

definition lookup_roots ::
  "(nat list \<Rightarrow> pystr + nat list) \<Rightarrow> (pystr, nat) pydict \<Rightarrow> pystr + (nat \<rightharpoonup> nat)" where
  "lookup_roots get_roots id_to_sv =
     (let sv_list = map snd id_to_sv in roots_loop get_roots (chunks 5000 sv_list) Map.empty)"

text \<open>
  The coordinate fetcher: \<open>get_l2data\<close> answers a chunk with a dict from the leaf ID as
  text to its attributes, or raises; the \<open>try\<close> swallows the exception and the loop goes
  on. An attribute dict may lack \<open>rep_coord_nm\<close>. Coordinates and resolutions are finite
  floats, taken as the rationals they denote.
\<close>

record l2_attrs =
  rep_coord_nm :: "(rat \<times> rat \<times> rat) option"

fun l2_loop ::
  "(nat list \<Rightarrow> pystr + (pystr \<rightharpoonup> l2_attrs)) \<Rightarrow> nat list list \<Rightarrow> (pystr \<rightharpoonup> l2_attrs)
   \<Rightarrow> (pystr \<rightharpoonup> l2_attrs)" where
  "l2_loop get_l2data [] l2_data = l2_data"
| "l2_loop get_l2data (chunk # rest) l2_data =
     (case get_l2data chunk of
        Inl e \<Rightarrow> l2_loop get_l2data rest l2_data
      | Inr chunk_data \<Rightarrow> l2_loop get_l2data rest (l2_data ++ chunk_data))"

definition fetch_l2_data ::
  "(nat list \<Rightarrow> pystr + (pystr \<rightharpoonup> l2_attrs)) \<Rightarrow> (pystr, nat) pydict \<Rightarrow> (pystr \<rightharpoonup> l2_attrs)" where
  "fetch_l2_data get_l2data id_to_l2 =
     (let all_l2_ids = map snd id_to_l2 in l2_loop get_l2data (chunks 100 all_l2_ids) Map.empty)"

section \<open>Stage C: the reports\<close>

text \<open>Whatever ends a run without a report.\<close>

datatype failure = SystemExit nat | ValueError | ZeroDivisionError | RemoteFault pystr

subsection \<open>Validator\<close>

record build_state =
  lines :: "pystr list"
  changed_count :: nat
  unchanged_count :: nat
  error_count :: nat
  updated_ids :: "pystr list"

text \<open>The body of \<open>for old_id in all_ids\<close>.\<close>

definition build_step ::
  "(pystr, pystr) pydict \<Rightarrow> (pystr, nat) pydict \<Rightarrow> (nat \<rightharpoonup> nat) \<Rightarrow> build_state \<Rightarrow> pystr
   \<Rightarrow> build_state" where
  "build_step errors id_to_sv sv_to_root st old_id =
     (case map_of errors old_id of
        Some err \<Rightarrow>
          st\<lparr>lines := lines st @ [ascii ''# ERROR: '' @ old_id @ ascii '' - '' @ err],
             error_count := error_count st + 1,
             updated_ids := updated_ids st @ [old_id]\<rparr>
      | None \<Rightarrow>
          (case (case map_of id_to_sv old_id of
                   None \<Rightarrow> None
                 | Some sv \<Rightarrow> sv_to_root sv) of
             Some current_root \<Rightarrow>
               (let new_id = str_nat current_root in
                if new_id \<noteq> old_id then
                  st\<lparr>lines := lines st @ [old_id @ ascii ''    ->    '' @ new_id],
                     changed_count := changed_count st + 1,
                     updated_ids := updated_ids st @ [new_id]\<rparr>
                else
                  st\<lparr>lines := lines st @ [old_id @ ascii ''    [OK - Current]''],
                     unchanged_count := unchanged_count st + 1,
                     updated_ids := updated_ids st @ [old_id]\<rparr>)
           | None \<Rightarrow>
               st\<lparr>lines := lines st @ [ascii ''# ERROR: '' @ old_id @ ascii '' - lookup failed''],
                  error_count := error_count st + 1,
                  updated_ids := updated_ids st @ [old_id]\<rparr>))"

definition build_results ::
  "pystr list \<Rightarrow> (pystr, pystr) pydict \<Rightarrow> (pystr, nat) pydict \<Rightarrow> (nat \<rightharpoonup> nat) \<Rightarrow> build_state" where
  "build_results all_ids errors id_to_sv sv_to_root =
     foldl (build_step errors id_to_sv sv_to_root)
       \<lparr>lines = [], changed_count = 0, unchanged_count = 0, error_count = 0, updated_ids = []\<rparr>
       all_ids"

text \<open>
  What \<open>main\<close> writes: the header's counts and worker count, the result lines, and the
  clean-ID file. The header's \<open>Time\<close> line is left out.
\<close>

record validation_report =
  total_ids :: nat
  changed :: nat
  unchanged :: nat
  errors_total :: nat
  workers :: int
  results :: "pystr list"
  clean_ids :: "pystr list"

definition main_validate ::
  "unicode_db \<Rightarrow> int \<Rightarrow> (nat list \<Rightarrow> pystr + nat list) \<Rightarrow> pystr list \<Rightarrow> (pystr \<times> outcome) list
   \<Rightarrow> failure + validation_report" where
  "main_validate db w get_roots f completed =
     (let all_ids = parse_id_file_validate db f in
      if all_ids = [] then Inl (SystemExit 1)
      else if w \<le> 0 then Inl ValueError
      else
        (case collect completed of (id_to_sv, errors) \<Rightarrow>
           (case lookup_roots get_roots id_to_sv of
              Inl e \<Rightarrow> Inl (RemoteFault e)
            | Inr sv_to_root \<Rightarrow>
                (let st = build_results all_ids errors id_to_sv sv_to_root in
                 Inr \<lparr>total_ids = length all_ids, changed = changed_count st,
                      unchanged = unchanged_count st, errors_total = error_count st,
                      workers = w, results = lines st, clean_ids = updated_ids st\<rparr>))))"

subsection \<open>Coordinate fetcher\<close>

text \<open>\<open>int(a / b)\<close>: true division, which raises on a zero divisor, then truncation.\<close>

definition trunc :: "rat \<Rightarrow> int" where
  "trunc q = (if 0 \<le> q then \<lfloor>q\<rfloor> else \<lceil>q\<rceil>)"

definition int_div :: "rat \<Rightarrow> rat \<Rightarrow> failure + int" where
  "int_div a b = (if b = 0 then Inl ZeroDivisionError else Inr (trunc (a / b)))"

definition voxel :: "rat \<times> rat \<times> rat \<Rightarrow> rat \<times> rat \<times> rat \<Rightarrow> failure + int \<times> int \<times> int" where
  "voxel rep_coord viewer_res =
     (case rep_coord of (c0, c1, c2) \<Rightarrow>
      case viewer_res of (r0, r1, r2) \<Rightarrow>
        (case int_div c0 r0 of Inl e \<Rightarrow> Inl e | Inr x \<Rightarrow>
        (case int_div c1 r1 of Inl e \<Rightarrow> Inl e | Inr y \<Rightarrow>
        (case int_div c2 r2 of Inl e \<Rightarrow> Inl e | Inr z \<Rightarrow> Inr (x, y, z)))))"

record output_state =
  out_lines :: "pystr list"
  success_count :: nat
  fail_count :: nat

definition tab :: pystr where
  "tab = [9]"

text \<open>The body of \<open>for root_id in all_ids\<close>.\<close>

definition output_step ::
  "rat \<times> rat \<times> rat \<Rightarrow> (pystr, pystr) pydict \<Rightarrow> (pystr, nat) pydict \<Rightarrow> (pystr \<rightharpoonup> l2_attrs)
   \<Rightarrow> output_state \<Rightarrow> pystr \<Rightarrow> failure + output_state" where
  "output_step viewer_res errors id_to_l2 l2_data st root_id =
     (case map_of errors root_id of
        Some err \<Rightarrow>
          Inr (st\<lparr>out_lines := out_lines st @ [root_id @ tab @ ascii ''ERROR'' @ tab @ ascii ''ERROR'' @ tab @ ascii ''ERROR''],
                  fail_count := fail_count st + 1\<rparr>)
      | None \<Rightarrow>
          (case map_of id_to_l2 root_id of
             Some l2_id \<Rightarrow>
               (let l2_key = str_nat l2_id in
                case (case l2_data l2_key of
                        None \<Rightarrow> None
                      | Some attrs \<Rightarrow> rep_coord_nm attrs) of
                  Some rep_coord \<Rightarrow>
                    (case voxel rep_coord viewer_res of
                       Inl e \<Rightarrow> Inl e
                     | Inr (x, y, z) \<Rightarrow>
                         Inr (st\<lparr>out_lines := out_lines st @ [root_id @ tab @ str_int x @ tab @ str_int y @ tab @ str_int z],
                                 success_count := success_count st + 1\<rparr>))
                | None \<Rightarrow>
                    Inr (st\<lparr>out_lines := out_lines st @ [root_id @ tab @ ascii ''N/A'' @ tab @ ascii ''N/A'' @ tab @ ascii ''N/A''],
                            fail_count := fail_count st + 1\<rparr>))
           | None \<Rightarrow>
               Inr (st\<lparr>out_lines := out_lines st @ [root_id @ tab @ ascii ''N/A'' @ tab @ ascii ''N/A'' @ tab @ ascii ''N/A''],
                       fail_count := fail_count st + 1\<rparr>)))"

fun output_loop ::
  "(output_state \<Rightarrow> pystr \<Rightarrow> failure + output_state) \<Rightarrow> output_state \<Rightarrow> pystr list
   \<Rightarrow> failure + output_state" where
  "output_loop step st [] = Inr st"
| "output_loop step st (root_id # rest) =
     (case step st root_id of Inl e \<Rightarrow> Inl e | Inr st' \<Rightarrow> output_loop step st' rest)"

definition build_output ::
  "rat \<times> rat \<times> rat \<Rightarrow> pystr list \<Rightarrow> (pystr, pystr) pydict \<Rightarrow> (pystr, nat) pydict
   \<Rightarrow> (pystr \<rightharpoonup> l2_attrs) \<Rightarrow> failure + output_state" where
  "build_output viewer_res all_ids errors id_to_l2 l2_data =
     output_loop (output_step viewer_res errors id_to_l2 l2_data)
       \<lparr>out_lines = [ascii ''root_id'' @ tab @ ascii ''x'' @ tab @ ascii ''y'' @ tab @ ascii ''z''],
        success_count = 0, fail_count = 0\<rparr>
       all_ids"

text \<open>\<open>viewer_res\<close> is what the datastack info holds; the written file is \<open>out_lines\<close>.\<close>

definition main_coords ::
  "unicode_db \<Rightarrow> int \<Rightarrow> rat \<times> rat \<times> rat \<Rightarrow> (nat list \<Rightarrow> pystr + (pystr \<rightharpoonup> l2_attrs)) \<Rightarrow> pystr list
   \<Rightarrow> (pystr \<times> outcome) list \<Rightarrow> failure + output_state" where
  "main_coords db w viewer_res get_l2data f completed =
     (let all_ids = parse_id_file_coords db f in
      if all_ids = [] then Inl (SystemExit 1)
      else if w \<le> 0 then Inl ValueError
      else
        (case collect completed of (id_to_l2, errors) \<Rightarrow>
           build_output viewer_res all_ids errors id_to_l2 (fetch_l2_data get_l2data id_to_l2)))"

section \<open>Auxiliary notions\<close>

text \<open>The line that one pass through the loop body appends, read off the loop body itself.\<close>

definition result_line ::
  "(pystr, pystr) pydict \<Rightarrow> (pystr, nat) pydict \<Rightarrow> (nat \<rightharpoonup> nat) \<Rightarrow> pystr \<Rightarrow> pystr" where
  "result_line errors id_to_sv sv_to_root old_id =
     last (lines (build_step errors id_to_sv sv_to_root
       \<lparr>lines = [], changed_count = 0, unchanged_count = 0, error_count = 0, updated_ids = []\<rparr> old_id))"

definition output_line ::
  "rat \<times> rat \<times> rat \<Rightarrow> (pystr, pystr) pydict \<Rightarrow> (pystr, nat) pydict \<Rightarrow> (pystr \<rightharpoonup> l2_attrs)
   \<Rightarrow> pystr \<Rightarrow> pystr" where
  "output_line viewer_res errors id_to_l2 l2_data root_id =
     (case output_step viewer_res errors id_to_l2 l2_data
             \<lparr>out_lines = [], success_count = 0, fail_count = 0\<rparr> root_id of
        Inl e \<Rightarrow> []
      | Inr st \<Rightarrow> last (out_lines st))"

text \<open>
  A service for trying things out: its state counts the calls made; the first call
  times out, later ones answer with the leaves \<open>[n + 1, n + 2]\<close>.
\<close>

definition flaky_leaves :: "nat get_leaves" where
  "flaky_leaves calls n stop_layer =
     (if calls = 0 then (Inl (ascii ''timed out''), Suc calls)
      else (Inr [nat n + 1, nat n + 2], Suc calls))"

text \<open>
  What a worker returns for an ID when the service answers by a fixed function of the
  request, whatever was asked before.
\<close>

definition supervoxel_result ::
  "unicode_db \<Rightarrow> (int \<Rightarrow> nat option \<Rightarrow> pystr + nat list) \<Rightarrow> pystr \<Rightarrow> pystr \<times> outcome" where
  "supervoxel_result db leaves root_id =
     fst (get_one_supervoxel db (\<lambda>s n stop_layer. (leaves n stop_layer, s)) root_id ())"

definition l2_result ::
  "unicode_db \<Rightarrow> (int \<Rightarrow> nat option \<Rightarrow> pystr + nat list) \<Rightarrow> pystr \<Rightarrow> pystr \<times> outcome" where
  "l2_result db leaves root_id =
     fst (get_one_l2 db (\<lambda>s n stop_layer. (leaves n stop_layer, s)) root_id ())"

definition resolved_leaf :: "outcome \<Rightarrow> nat option" where
  "resolved_leaf oc = (case oc of Resolved sv \<Rightarrow> Some sv | Failed err \<Rightarrow> None)"

definition failure_reason :: "outcome \<Rightarrow> pystr option" where
  "failure_reason oc = (case oc of Resolved sv \<Rightarrow> None | Failed err \<Rightarrow> Some err)"

text \<open>
  Services for trying things out. \<open>own_leaf\<close> gives every ID itself as its one leaf and
  \<open>echo_roots\<close> every leaf itself as its root. \<open>fragile_l2data\<close> times out on any chunk
  that holds leaf \<open>1\<close> and otherwise answers every leaf asked with the origin.
  \<open>ids_1_to_101\<close> is a file of 101 IDs, \<open>first_done_last\<close> the order of completion in
  which the first task is the last to finish.
\<close>

definition own_leaf :: "int \<Rightarrow> nat option \<Rightarrow> pystr + nat list" where
  "own_leaf n stop_layer = Inr [nat n]"

definition echo_roots :: "nat list \<Rightarrow> pystr + nat list" where
  "echo_roots chunk = Inr chunk"

definition fragile_l2data :: "nat list \<Rightarrow> pystr + (pystr \<rightharpoonup> l2_attrs)" where
  "fragile_l2data chunk =
     (if 1 \<in> set chunk then Inl (ascii ''504 Gateway Timeout'')
      else Inr (\<lambda>key. if key \<in> set (map str_nat chunk)
                       then Some \<lparr>rep_coord_nm = Some (0, 0, 0)\<rparr> else None))"

definition ids_1_to_101 :: "pystr list" where
  "ids_1_to_101 = map str_nat [1..<102]"

definition first_done_last :: "pystr list" where
  "first_done_last = tl ids_1_to_101 @ [hd ids_1_to_101]"

section \<open>Stage C: rows and counters\<close>

lemma lines_build_step:
  "lines (build_step E I R st x) = lines st @ [result_line E I R x]"
  by (simp add: build_step_def result_line_def Let_def split: option.splits)

lemma lines_foldl_build_step:
  "lines (foldl (build_step E I R) st xs) = lines st @ map (result_line E I R) xs"
  by (induction xs arbitrary: st) (simp_all add: lines_build_step)

lemma lines_build_results:
  "lines (build_results ids E I R) = map (result_line E I R) ids"
  by (simp add: build_results_def lines_foldl_build_step)

lemma updated_ids_build_step:
  "length (updated_ids (build_step E I R st x)) = Suc (length (updated_ids st))"
  by (simp add: build_step_def Let_def split: option.splits)

lemma counts_build_step:
  "changed_count (build_step E I R st x) + unchanged_count (build_step E I R st x)
     + error_count (build_step E I R st x)
   = Suc (changed_count st + unchanged_count st + error_count st)"
  by (simp add: build_step_def Let_def split: option.splits)

lemma counts_foldl_build_step:
  "changed_count (foldl (build_step E I R) st xs) + unchanged_count (foldl (build_step E I R) st xs)
     + error_count (foldl (build_step E I R) st xs)
   = changed_count st + unchanged_count st + error_count st + length xs
   \<and> length (updated_ids (foldl (build_step E I R) st xs)) = length (updated_ids st) + length xs"
proof (induction xs arbitrary: st)
  case Nil
  show ?case by simp
next
  case (Cons x xs)
  show ?case
    using Cons.IH [of "build_step E I R st x"] counts_build_step [of E I R st x]
      updated_ids_build_step [of E I R st x]
    by simp
qed

lemma result_line_cases:
  "result_line E I R x =
     (case map_of E x of
        Some err \<Rightarrow> ascii ''# ERROR: '' @ x @ ascii '' - '' @ err
      | None \<Rightarrow>
          (case map_of I x of
             None \<Rightarrow> ascii ''# ERROR: '' @ x @ ascii '' - lookup failed''
           | Some sv \<Rightarrow>
               (case R sv of
                  None \<Rightarrow> ascii ''# ERROR: '' @ x @ ascii '' - lookup failed''
                | Some r \<Rightarrow>
                    if str_nat r = x then x @ ascii ''    [OK - Current]''
                    else x @ ascii ''    ->    '' @ str_nat r)))"
  by (simp add: build_step_def result_line_def Let_def split: option.splits)

lemma int_div_nonzero: "b \<noteq> 0 \<Longrightarrow> int_div a b = Inr (trunc (a / b))"
  by (simp add: int_div_def)

lemma voxel_nonzero:
  "r0 \<noteq> 0 \<Longrightarrow> r1 \<noteq> 0 \<Longrightarrow> r2 \<noteq> 0 \<Longrightarrow>
   voxel (c0, c1, c2) (r0, r1, r2) = Inr (trunc (c0 / r0), trunc (c1 / r1), trunc (c2 / r2))"
  by (simp add: voxel_def int_div_nonzero)

lemma output_step_total:
  assumes "r0 \<noteq> 0" "r1 \<noteq> 0" "r2 \<noteq> 0"
  shows "\<exists>st'. output_step (r0, r1, r2) E I D st x = Inr st'"
proof (cases "map_of E x")
  case (Some err)
  then show ?thesis by (simp add: output_step_def)
next
  case None
  note noerr = this
  show ?thesis
  proof (cases "map_of I x")
    case None
    with noerr show ?thesis by (simp add: output_step_def)
  next
    case (Some l)
    show ?thesis
    proof (cases "case D (str_nat l) of None \<Rightarrow> None | Some attrs \<Rightarrow> rep_coord_nm attrs")
      case None
      with noerr Some show ?thesis by (simp add: output_step_def Let_def)
    next
      case (Some c)
      obtain c0 c1 c2 where c: "c = (c0, c1, c2)" by (cases c) auto
      from noerr \<open>map_of I x = Some l\<close> Some c assms show ?thesis
        by (simp add: output_step_def Let_def voxel_nonzero)
    qed
  qed
qed

lemma output_step_shape:
  assumes "output_step vr E I D st x = Inr st'"
  shows "out_lines st' = out_lines st @ [output_line vr E I D x]
   \<and> success_count st' + fail_count st' = Suc (success_count st + fail_count st)
   \<and> prefix (x @ tab) (output_line vr E I D x)"
proof (cases "map_of E x")
  case (Some err)
  with assms show ?thesis by (auto simp: output_step_def output_line_def)
next
  case None
  note noerr = this
  show ?thesis
  proof (cases "map_of I x")
    case None
    with noerr assms show ?thesis by (auto simp: output_step_def output_line_def)
  next
    case (Some l)
    note leaf = this
    show ?thesis
    proof (cases "case D (str_nat l) of None \<Rightarrow> None | Some attrs \<Rightarrow> rep_coord_nm attrs")
      case None
      with noerr leaf assms show ?thesis by (auto simp: output_step_def output_line_def Let_def)
    next
      case (Some c)
      show ?thesis
      proof (cases "voxel c vr")
        case (Inl e)
        with noerr leaf Some assms show ?thesis by (simp add: output_step_def Let_def)
      next
        case (Inr v)
        obtain vx vy vz where v: "v = (vx, vy, vz)" by (cases v) auto
        from noerr leaf Some Inr v assms show ?thesis
          by (auto simp: output_step_def output_line_def Let_def)
      qed
    qed
  qed
qed

lemma output_loop_shape:
  "output_loop (output_step vr E I D) st xs = Inr st' \<Longrightarrow>
   out_lines st' = out_lines st @ map (output_line vr E I D) xs
   \<and> success_count st' + fail_count st' = success_count st + fail_count st + length xs"
proof (induction xs arbitrary: st)
  case Nil
  then show ?case by simp
next
  case (Cons x xs)
  from Cons.prems obtain st1 where
    s1: "output_step vr E I D st x = Inr st1" and
    r: "output_loop (output_step vr E I D) st1 xs = Inr st'"
    by (auto split: sum.splits)
  from Cons.IH [OF r] output_step_shape [OF s1] show ?case by simp
qed

lemma output_loop_total:
  assumes "r0 \<noteq> 0" "r1 \<noteq> 0" "r2 \<noteq> 0"
  shows "\<exists>st'. output_loop (output_step (r0, r1, r2) E I D) st xs = Inr st'"
proof (induction xs arbitrary: st)
  case Nil
  show ?case by simp
next
  case (Cons x xs)
  from output_step_total [OF assms] obtain st1 where
    "output_step (r0, r1, r2) E I D st x = Inr st1" by blast
  with Cons.IH [of st1] show ?case by simp
qed


lemma build_output_total:
  assumes "r0 \<noteq> 0" "r1 \<noteq> 0" "r2 \<noteq> 0"
  shows "\<exists>st. build_output (r0, r1, r2) ids E I D = Inr st"
  unfolding build_output_def by (rule output_loop_total [OF assms])








text \<open>
  C6. In the validator's report, an ID that is not in the error map, has a leaf in the
  Stage A map and whose leaf has a root in the Stage B map gets its line by comparing
  \<open>str\<close> of the root with the ID as text: equal gives the \<open>[OK - Current]\<close> line, unequal
  the \<open>->\<close> line carrying the root.
\<close>

theorem validator_line_by_string_comparison:
  assumes "i < length all_ids"
    and "map_of errors (all_ids ! i) = None"
    and "map_of id_to_sv (all_ids ! i) = Some sv"
    and "sv_to_root sv = Some current_root"
  shows "lines (build_results all_ids errors id_to_sv sv_to_root) ! i =
     (if str_nat current_root = all_ids ! i then all_ids ! i @ ascii ''    [OK - Current]''
      else all_ids ! i @ ascii ''    ->    '' @ str_nat current_root)"
  using assms by (simp add: lines_build_results result_line_cases)

theorem validator_line_by_string_comparison_witness:
  "lines (build_results [ascii ''100'', ascii ''444''] []
            [(ascii ''100'', 7), (ascii ''444'', 8)] [7 \<mapsto> 100, 8 \<mapsto> 999]) ! 0
     = ascii ''100    [OK - Current]''
   \<and> lines (build_results [ascii ''100'', ascii ''444''] []
            [(ascii ''100'', 7), (ascii ''444'', 8)] [7 \<mapsto> 100, 8 \<mapsto> 999]) ! 1
     = ascii ''444    ->    999''"
  using validator_line_by_string_comparison [of 0 "[ascii ''100'', ascii ''444'']" "[]"
      "[(ascii ''100'', 7), (ascii ''444'', 8)]" 7 "[7 \<mapsto> 100, 8 \<mapsto> 999]" 100]
    validator_line_by_string_comparison [of 1 "[ascii ''100'', ascii ''444'']" "[]"
      "[(ascii ''100'', 7), (ascii ''444'', 8)]" 8 "[7 \<mapsto> 100, 8 \<mapsto> 999]" 999]
  by (simp add: ascii_def str_nat.simps)

text \<open>
  C9. The counters count every ID once: in the validator the three counters add up to
  the number of IDs, which is also the length of the clean-ID list; in the coordinate
  fetcher the two counters add up to the number of IDs whenever the loop gets through,
  which it does when no resolution component is zero.
\<close>

theorem counters_partition_input:
  "changed_count (build_results all_ids errors id_to_sv sv_to_root)
     + unchanged_count (build_results all_ids errors id_to_sv sv_to_root)
     + error_count (build_results all_ids errors id_to_sv sv_to_root) = length all_ids
   \<and> length (updated_ids (build_results all_ids errors id_to_sv sv_to_root)) = length all_ids
   \<and> (build_output viewer_res all_ids errors id_to_l2 l2_data = Inr st \<longrightarrow>
        success_count st + fail_count st = length all_ids)
   \<and> (r0 \<noteq> 0 \<and> r1 \<noteq> 0 \<and> r2 \<noteq> 0 \<longrightarrow>
        (\<exists>st'. build_output (r0, r1, r2) all_ids errors id_to_l2 l2_data = Inr st'
           \<and> success_count st' + fail_count st' = length all_ids))"
proof (intro conjI impI)
  show "changed_count (build_results all_ids errors id_to_sv sv_to_root)
     + unchanged_count (build_results all_ids errors id_to_sv sv_to_root)
     + error_count (build_results all_ids errors id_to_sv sv_to_root) = length all_ids"
    unfolding build_results_def using counts_foldl_build_step [of errors id_to_sv sv_to_root _ all_ids]
    by simp
  show "length (updated_ids (build_results all_ids errors id_to_sv sv_to_root)) = length all_ids"
    unfolding build_results_def using counts_foldl_build_step [of errors id_to_sv sv_to_root _ all_ids]
    by simp
next
  assume "build_output viewer_res all_ids errors id_to_l2 l2_data = Inr st"
  then show "success_count st + fail_count st = length all_ids"
    unfolding build_output_def using output_loop_shape by fastforce
next
  assume "r0 \<noteq> 0 \<and> r1 \<noteq> 0 \<and> r2 \<noteq> 0"
  then obtain st' where st': "build_output (r0, r1, r2) all_ids errors id_to_l2 l2_data = Inr st'"
    using build_output_total by blast
  then have "success_count st' + fail_count st' = length all_ids"
    unfolding build_output_def using output_loop_shape by fastforce
  with st' show "\<exists>st'. build_output (r0, r1, r2) all_ids errors id_to_l2 l2_data = Inr st'
           \<and> success_count st' + fail_count st' = length all_ids" by blast
qed

theorem counters_partition_input_witness:
  "(4::rat) \<noteq> 0 \<and> (40::rat) \<noteq> 0
   \<and> changed_count (build_results [ascii ''5'', ascii ''6'', ascii ''5'']
          [(ascii ''6'', ascii ''timeout'')] [(ascii ''5'', 9)] [9 \<mapsto> 7])
       + unchanged_count (build_results [ascii ''5'', ascii ''6'', ascii ''5'']
          [(ascii ''6'', ascii ''timeout'')] [(ascii ''5'', 9)] [9 \<mapsto> 7])
       + error_count (build_results [ascii ''5'', ascii ''6'', ascii ''5'']
          [(ascii ''6'', ascii ''timeout'')] [(ascii ''5'', 9)] [9 \<mapsto> 7]) = 3
   \<and> (\<exists>st'. build_output (4, 4, 40) [ascii ''5'', ascii ''6'', ascii ''5'']
          [(ascii ''6'', ascii ''timeout'')] [(ascii ''5'', 9)]
          [ascii ''9'' \<mapsto> \<lparr>rep_coord_nm = Some (400, 800, 1600)\<rparr>] = Inr st'
        \<and> success_count st' + fail_count st' = 3)"
proof -
  let ?ids = "[ascii ''5'', ascii ''6'', ascii ''5'']"
  let ?D = "[ascii ''9'' \<mapsto> \<lparr>rep_coord_nm = Some (400, 800, 1600)\<rparr>]"
  have nz: "(4::rat) \<noteq> 0 \<and> (4::rat) \<noteq> 0 \<and> (40::rat) \<noteq> 0" by simp
  have n: "length ?ids = 3" by simp
  note inst = counters_partition_input [of ?ids
      "[(ascii ''6'', ascii ''timeout'')]" "[(ascii ''5'', 9)]" "[9 \<mapsto> 7]" "(4, 4, 40)"
      "[(ascii ''5'', 9)]" ?D _ 4 4 40, unfolded n]
  from inst nz obtain st' where
    st': "build_output (4, 4, 40) ?ids [(ascii ''6'', ascii ''timeout'')] [(ascii ''5'', 9)] ?D
        = Inr st'"
    by blast
  from counters_partition_input [of ?ids
      "[(ascii ''6'', ascii ''timeout'')]" "[(ascii ''5'', 9)]" "[9 \<mapsto> 7]" "(4, 4, 40)"
      "[(ascii ''5'', 9)]" ?D st' 4 4 40, unfolded n] st'
  have "success_count st' + fail_count st' = 3" by blast
  with inst st' nz show ?thesis by blast
qed

subsection \<open>Voxel coordinates\<close>




section \<open>Stage A: the workers and the two maps\<close>

text \<open>
  C5. A Stage A worker always returns its pair. When the ID converts to \<open>n\<close>, the worker
  makes one call for \<open>n\<close> (the service is left in the state after that one call): a
  non-empty answer gives \<open>Resolved\<close> with its first element, an empty one \<open>Failed\<close> with
  the fixed message, an exception \<open>Failed\<close> with the exception's message. When the
  conversion itself raises, that message is the reason and no call is made.
\<close>

theorem worker_outcomes:
  "fst (fst (get_one_supervoxel db get_leaves root_id s)) = root_id
   \<and> fst (fst (get_one_l2 db get_leaves root_id s)) = root_id
   \<and> (py_int db root_id = Inr n \<longrightarrow>
        snd (get_one_supervoxel db get_leaves root_id s) = snd (get_leaves s n None)
        \<and> snd (get_one_l2 db get_leaves root_id s) = snd (get_leaves s n (Some 2))
        \<and> (\<forall>x xs. fst (get_leaves s n None) = Inr (x # xs) \<longrightarrow>
              snd (fst (get_one_supervoxel db get_leaves root_id s)) = Resolved x)
        \<and> (\<forall>x xs. fst (get_leaves s n (Some 2)) = Inr (x # xs) \<longrightarrow>
              snd (fst (get_one_l2 db get_leaves root_id s)) = Resolved x)
        \<and> (fst (get_leaves s n None) = Inr [] \<longrightarrow>
              snd (fst (get_one_supervoxel db get_leaves root_id s))
                = Failed (ascii ''No supervoxels found''))
        \<and> (fst (get_leaves s n (Some 2)) = Inr [] \<longrightarrow>
              snd (fst (get_one_l2 db get_leaves root_id s))
                = Failed (ascii ''No L2 chunks found''))
        \<and> (\<forall>e. fst (get_leaves s n None) = Inl e \<longrightarrow>
              snd (fst (get_one_supervoxel db get_leaves root_id s)) = Failed e)
        \<and> (\<forall>e. fst (get_leaves s n (Some 2)) = Inl e \<longrightarrow>
              snd (fst (get_one_l2 db get_leaves root_id s)) = Failed e))
   \<and> (\<forall>e. py_int db root_id = Inl e \<longrightarrow>
        get_one_supervoxel db get_leaves root_id s = ((root_id, Failed e), s)
        \<and> get_one_l2 db get_leaves root_id s = ((root_id, Failed e), s))"
  by (auto simp: get_one_supervoxel_def get_one_l2_def split: sum.splits prod.splits)

theorem worker_outcomes_witness:
  "py_int ascii_db (ascii ''41'') = Inr 41
   \<and> fst (flaky_leaves 0 41 None) = Inl (ascii ''timed out'')
   \<and> fst (flaky_leaves 1 41 None) = Inr [42, 43]
   \<and> get_one_supervoxel ascii_db flaky_leaves (ascii ''41'') 0
        = ((ascii ''41'', Failed (ascii ''timed out'')), 1)
   \<and> get_one_supervoxel ascii_db flaky_leaves (ascii ''41'') 1
        = ((ascii ''41'', Resolved 42), 2)
   \<and> py_int ascii_db (ascii ''4x'') = Inl (ascii ''invalid literal for int()'')
   \<and> get_one_supervoxel ascii_db flaky_leaves (ascii ''4x'') 0
        = ((ascii ''4x'', Failed (ascii ''invalid literal for int()'')), 0)"
proof -
  have conv: "py_int ascii_db (ascii ''41'') = Inr 41"
    by (simp add: py_int_def ascii_def ascii_digit_def digits_value_def)
  have bad: "py_int ascii_db (ascii ''4x'') = Inl (ascii ''invalid literal for int()'')"
    by (simp add: py_int_def ascii_def ascii_digit_def ascii_db_def)
  have a0: "flaky_leaves 0 41 None = (Inl (ascii ''timed out''), 1)"
    and a1: "flaky_leaves 1 41 None = (Inr [42, 43], 2)"
    by (simp_all add: flaky_leaves_def)
  note at0 = worker_outcomes [of ascii_db flaky_leaves "ascii ''41''" 0 41]
  note at1 = worker_outcomes [of ascii_db flaky_leaves "ascii ''41''" 1 41]
  note atx = worker_outcomes [of ascii_db flaky_leaves "ascii ''4x''" 0]
  from at0 conv a0 have
    "get_one_supervoxel ascii_db flaky_leaves (ascii ''41'') 0
       = ((ascii ''41'', Failed (ascii ''timed out'')), 1)"
    by (simp add: prod_eq_iff)
  moreover from at1 conv a1 have
    "get_one_supervoxel ascii_db flaky_leaves (ascii ''41'') 1 = ((ascii ''41'', Resolved 42), 2)"
    by (simp add: prod_eq_iff)
  moreover from atx bad have
    "get_one_supervoxel ascii_db flaky_leaves (ascii ''4x'') 0
       = ((ascii ''4x'', Failed (ascii ''invalid literal for int()'')), 0)"
    by blast
  ultimately show ?thesis using conv bad a0 a1 by simp
qed

lemma keys_foldl_collect_step:
  "fst ` set (fst (foldl collect_step (a, e) rs))
     = fst ` set a \<union> {k. \<exists>sv. (k, Resolved sv) \<in> set rs}
   \<and> fst ` set (snd (foldl collect_step (a, e) rs))
     = fst ` set e \<union> {k. \<exists>m. (k, Failed m) \<in> set rs}"
proof (induction rs arbitrary: a e)
  case Nil
  show ?case by simp
next
  case (Cons r rs)
  obtain k oc where r: "r = (k, oc)" by (cases r) auto
  show ?case
  proof (cases oc)
    case (Resolved sv)
    with r have step: "collect_step (a, e) r = (AList.update k sv a, e)"
      by (simp add: collect_step_def)
    have "{k'. \<exists>sv'. (k', Resolved sv') \<in> set (r # rs)}
        = insert k {k'. \<exists>sv'. (k', Resolved sv') \<in> set rs}"
      "{k'. \<exists>m. (k', Failed m) \<in> set (r # rs)} = {k'. \<exists>m. (k', Failed m) \<in> set rs}"
      using r Resolved by auto
    with Cons.IH [of "AList.update k sv a" e] show ?thesis
      by (simp add: step dom_update)
  next
    case (Failed m)
    with r have step: "collect_step (a, e) r = (a, AList.update k m e)"
      by (simp add: collect_step_def)
    have "{k'. \<exists>sv'. (k', Resolved sv') \<in> set (r # rs)} = {k'. \<exists>sv'. (k', Resolved sv') \<in> set rs}"
      "{k'. \<exists>m'. (k', Failed m') \<in> set (r # rs)} = insert k {k'. \<exists>m'. (k', Failed m') \<in> set rs}"
      using r Failed by auto
    with Cons.IH [of a "AList.update k m e"] show ?thesis
      by (simp add: step dom_update)
  qed
qed

lemma keys_collect:
  "fst ` set (fst (collect rs)) = {k. \<exists>sv. (k, Resolved sv) \<in> set rs}"
  "fst ` set (snd (collect rs)) = {k. \<exists>m. (k, Failed m) \<in> set rs}"
  using keys_foldl_collect_step [of "[]" "[]" rs] by (simp_all add: collect_def)

text \<open>
  C2, as the code has it. Every task hands back its own ID, so the IDs of the completed
  results are the input IDs in some order. The keys of the two maps together are the
  input IDs. An ID is in both maps exactly when one of its tasks resolved and another
  failed, which takes an ID listed twice; with distinct IDs the key sets are disjoint.
\<close>

theorem stage_a_partition:
  assumes "mset (map fst completed) = mset all_ids"
  shows "fst ` set (fst (collect completed)) \<union> fst ` set (snd (collect completed)) = set all_ids
   \<and> fst ` set (fst (collect completed)) \<inter> fst ` set (snd (collect completed))
       = {k. (\<exists>sv. (k, Resolved sv) \<in> set completed) \<and> (\<exists>m. (k, Failed m) \<in> set completed)}
   \<and> (distinct all_ids \<longrightarrow>
        fst ` set (fst (collect completed)) \<inter> fst ` set (snd (collect completed)) = {})"
proof (intro conjI impI)
  from assms have s: "fst ` set completed = set all_ids"
    by (metis set_map set_mset_mset)
  have "{k. \<exists>sv. (k, Resolved sv) \<in> set completed} \<union> {k. \<exists>m. (k, Failed m) \<in> set completed}
      = fst ` set completed"
  proof (intro set_eqI iffI)
    fix k assume "k \<in> {k. \<exists>sv. (k, Resolved sv) \<in> set completed} \<union> {k. \<exists>m. (k, Failed m) \<in> set completed}"
    then show "k \<in> fst ` set completed" by force
  next
    fix k assume "k \<in> fst ` set completed"
    then obtain oc where "(k, oc) \<in> set completed" by auto
    then show "k \<in> {k. \<exists>sv. (k, Resolved sv) \<in> set completed} \<union> {k. \<exists>m. (k, Failed m) \<in> set completed}"
      by (cases oc) auto
  qed
  with s show "fst ` set (fst (collect completed)) \<union> fst ` set (snd (collect completed)) = set all_ids"
    by (simp add: keys_collect)
  show "fst ` set (fst (collect completed)) \<inter> fst ` set (snd (collect completed))
       = {k. (\<exists>sv. (k, Resolved sv) \<in> set completed) \<and> (\<exists>m. (k, Failed m) \<in> set completed)}"
    by (auto simp: keys_collect)
next
  assume "distinct all_ids"
  with assms have d: "distinct (map fst completed)"
    by (metis mset_eq_imp_distinct_iff)
  have "\<not> ((k, Resolved sv) \<in> set completed \<and> (k, Failed m) \<in> set completed)" for k sv m
    using eq_key_imp_eq_value [OF d] by fastforce
  then show "fst ` set (fst (collect completed)) \<inter> fst ` set (snd (collect completed)) = {}"
    by (auto simp: keys_collect)
qed

theorem stage_a_partition_witness:
  "mset (map fst [(ascii ''6'', Failed (ascii ''timed out'')), (ascii ''5'', Resolved 9)])
     = mset [ascii ''5'', ascii ''6'']
   \<and> distinct [ascii ''5'', ascii ''6'']
   \<and> fst ` set (fst (collect [(ascii ''6'', Failed (ascii ''timed out'')), (ascii ''5'', Resolved 9)]))
       \<union> fst ` set (snd (collect [(ascii ''6'', Failed (ascii ''timed out'')), (ascii ''5'', Resolved 9)]))
     = {ascii ''5'', ascii ''6''}
   \<and> fst ` set (fst (collect [(ascii ''6'', Failed (ascii ''timed out'')), (ascii ''5'', Resolved 9)]))
       \<inter> fst ` set (snd (collect [(ascii ''6'', Failed (ascii ''timed out'')), (ascii ''5'', Resolved 9)]))
     = {}"
proof -
  have m: "mset (map fst [(ascii ''6'', Failed (ascii ''timed out'')), (ascii ''5'', Resolved 9)])
     = mset [ascii ''5'', ascii ''6'']" by simp
  have d: "distinct [ascii ''5'', ascii ''6'']" by (simp add: ascii_def)
  from stage_a_partition [OF m] d m show ?thesis by simp
qed

text \<open>
  C2 as stated fails: the ID \<open>5\<close> is listed twice, its first task resolves and its second
  times out, and \<open>5\<close> is a key of both maps.
\<close>

theorem stage_a_partition_counterexample:
  "mset (map fst [(ascii ''5'', Resolved 9), (ascii ''5'', Failed (ascii ''timed out''))])
     = mset [ascii ''5'', ascii ''5'']
   \<and> fst ` set (fst (collect [(ascii ''5'', Resolved 9), (ascii ''5'', Failed (ascii ''timed out''))]))
       \<inter> fst ` set (snd (collect [(ascii ''5'', Resolved 9), (ascii ''5'', Failed (ascii ''timed out''))]))
     = {ascii ''5''}"
  by (simp add: collect_def collect_step_def)

section \<open>The parsers\<close>

lemma contains_single: "contains [a] s \<longleftrightarrow> a \<in> set s"
  by (induction s) auto

lemma contains_prefix: "prefix sep s \<Longrightarrow> contains sep s"
  by (cases s) auto

lemma contains_append: "contains sep (pre @ sep @ post)"
  by (induction pre) (simp_all add: contains_prefix)

lemma contains_Nil_sep: "contains [] s"
  by (cases s) simp_all

lemma split_from_no_occurrence:
  "\<not> contains sep s \<Longrightarrow> split_from sep cur s = [rev cur @ s]"
  by (induction s arbitrary: cur) auto

lemma split_from_nonempty: "split_from sep cur s \<noteq> []"
  by (induction sep cur s rule: split_from.induct) auto

lemma last_split_from_single:
  "a \<notin> set post \<Longrightarrow> last (split_from [a] cur (pre @ a # post)) = post"
proof (induction pre arbitrary: cur)
  case Nil
  then show ?case
    by (simp add: split_from_no_occurrence contains_single split_from_nonempty)
next
  case (Cons c pre)
  show ?case
  proof (cases "c = a")
    case True
    with Cons.IH [OF Cons.prems, of "[]"] show ?thesis
      by (simp add: split_from_nonempty)
  next
    case False
    with Cons.IH [OF Cons.prems, of "c # cur"] show ?thesis by simp
  qed
qed

lemma last_split_from_pair:
  assumes "a \<noteq> b" and "\<not> contains [a, b] post"
  shows "last (split_from [a, b] cur (pre @ a # b # post)) = post"
  using assms
proof (induction "length pre" arbitrary: pre cur rule: less_induct)
  case less
  show ?case
  proof (cases pre)
    case Nil
    with less.prems show ?thesis
      by (simp add: split_from_no_occurrence split_from_nonempty)
  next
    case (Cons c pre')
    show ?thesis
    proof (cases "prefix [a, b] (pre @ a # b # post)")
      case False
      with Cons have "split_from [a, b] cur (pre @ a # b # post)
          = split_from [a, b] (c # cur) (pre' @ a # b # post)"
        by auto
      moreover from less.hyps [of pre' "c # cur"] less.prems Cons
      have "last (split_from [a, b] (c # cur) (pre' @ a # b # post)) = post" by simp
      ultimately show ?thesis by simp
    next
      case True
      with Cons have ca: "c = a" by simp
      from True Cons ca less.prems(1) obtain pre'' where p: "pre' = b # pre''"
        by (cases pre') auto
      from Cons ca p have "split_from [a, b] cur (pre @ a # b # post)
          = rev cur # split_from [a, b] [] (pre'' @ a # b # post)"
        by simp
      moreover from less.hyps [of pre'' "[]"] less.prems Cons p
      have "last (split_from [a, b] [] (pre'' @ a # b # post)) = post" by simp
      ultimately show ?thesis by (simp add: split_from_nonempty)
    qed
  qed
qed

lemma parse_step_validate_append:
  "parse_step_validate db ids raw = ids @ parse_step_validate db [] raw"
  by (simp add: parse_step_validate_def Let_def)

lemma parse_step_coords_append:
  "parse_step_coords db ids raw = ids @ parse_step_coords db [] raw"
  by (simp add: parse_step_coords_def Let_def)

lemma parse_id_file_coords_concat:
  "foldl (parse_step_coords db) ids f = ids @ concat (map (parse_step_coords db []) f)"
proof (induction f arbitrary: ids)
  case Nil
  show ?case by simp
next
  case (Cons raw f)
  show ?case
    using Cons.IH [of "parse_step_coords db ids raw"] parse_step_coords_append [of db ids raw]
    by simp
qed

lemma parse_id_file_validate_concat:
  "foldl (parse_step_validate db) ids f = ids @ concat (map (parse_step_validate db []) f)"
proof (induction f arbitrary: ids)
  case Nil
  show ?case by simp
next
  case (Cons raw f)
  show ?case
    using Cons.IH [of "parse_step_validate db ids raw"] parse_step_validate_append [of db ids raw]
    by simp
qed

text \<open>
  The grammar of the coordinate fetcher's parser, line by line: the file's IDs are the
  lines' IDs in the order of the lines; a blank or \<open>#\<close> line gives none; a line with the
  Unicode arrow gives the text after its last arrow when that is all digits; otherwise
  a line with \<open>->\<close> gives the text after its last \<open>->\<close> when that is all digits;
  otherwise the line gives itself when it is all digits.
\<close>

lemma parse_id_file_coords_grammar:
  "parse_id_file_coords db f = concat (map (parse_step_coords db []) f)"
  "strip db raw = [] \<or> startswith (strip db raw) (ascii ''#'') \<Longrightarrow> parse_step_coords db [] raw = []"
  "strip db raw \<noteq> [] \<Longrightarrow> \<not> startswith (strip db raw) (ascii ''#'') \<Longrightarrow>
   strip db raw = pre @ arrow @ post \<Longrightarrow> \<not> contains arrow post \<Longrightarrow>
   parse_step_coords db [] raw = (if isdigit db (strip db post) then [strip db post] else [])"
  "strip db raw \<noteq> [] \<Longrightarrow> \<not> startswith (strip db raw) (ascii ''#'') \<Longrightarrow>
   \<not> contains arrow (strip db raw) \<Longrightarrow>
   strip db raw = pre @ ascii ''->'' @ post \<Longrightarrow> \<not> contains (ascii ''->'') post \<Longrightarrow>
   parse_step_coords db [] raw = (if isdigit db (strip db post) then [strip db post] else [])"
  "strip db raw \<noteq> [] \<Longrightarrow> \<not> startswith (strip db raw) (ascii ''#'') \<Longrightarrow>
   \<not> contains arrow (strip db raw) \<Longrightarrow> \<not> contains (ascii ''->'') (strip db raw) \<Longrightarrow>
   parse_step_coords db [] raw = (if isdigit db (strip db raw) then [strip db raw] else [])"
proof -
  show "parse_id_file_coords db f = concat (map (parse_step_coords db []) f)"
    by (simp add: parse_id_file_coords_def parse_id_file_coords_concat)
  show "strip db raw = [] \<or> startswith (strip db raw) (ascii ''#'') \<Longrightarrow> parse_step_coords db [] raw = []"
    by (auto simp: parse_step_coords_def Let_def)
  show "parse_step_coords db [] raw = (if isdigit db (strip db post) then [strip db post] else [])"
    if "strip db raw \<noteq> []" "\<not> startswith (strip db raw) (ascii ''#'')"
      "strip db raw = pre @ arrow @ post" "\<not> contains arrow post"
  proof -
    from that(4) have "8594 \<notin> set post" by (simp add: arrow_def contains_single)
    then have "last (split (strip db raw) arrow) = post"
      using last_split_from_single [of 8594 post "[]" pre] that(3)
      by (simp add: split_def arrow_def)
    moreover have "contains arrow (strip db raw)"
      using contains_append [of arrow pre post] that(3) by simp
    ultimately show ?thesis using that(1,2)
      by (simp add: parse_step_coords_def Let_def isdigit_def)
  qed
  show "parse_step_coords db [] raw = (if isdigit db (strip db post) then [strip db post] else [])"
    if "strip db raw \<noteq> []" "\<not> startswith (strip db raw) (ascii ''#'')"
      "\<not> contains arrow (strip db raw)"
      "strip db raw = pre @ ascii ''->'' @ post" "\<not> contains (ascii ''->'') post"
  proof -
    have sep: "ascii ''->'' = [45, 62]" by (simp add: ascii_def)
    from that(5) have "last (split (strip db raw) (ascii ''->'')) = post"
      using last_split_from_pair [of 45 62 post "[]" pre] that(4)
      by (simp add: split_def sep)
    moreover have "contains (ascii ''->'') (strip db raw)"
      using contains_append [of "ascii ''->''" pre post] that(4) by simp
    ultimately show ?thesis using that(1,2,3)
      by (simp add: parse_step_coords_def Let_def isdigit_def)
  qed
  show "parse_step_coords db [] raw = (if isdigit db (strip db raw) then [strip db raw] else [])"
    if "strip db raw \<noteq> []" "\<not> startswith (strip db raw) (ascii ''#'')"
      "\<not> contains arrow (strip db raw)" "\<not> contains (ascii ''->'') (strip db raw)"
    using that by (simp add: parse_step_coords_def Let_def)
qed

text \<open>
  C3. The claim holds of the coordinate fetcher's \<open>parse_id_file\<close> and not of the
  validator's, which has neither the \<open>#\<close> rule nor the \<open>->\<close> rule: of the line
  \<open>123->456\<close> the validator's parser makes nothing where the other makes \<open>456\<close>, and of
  the comment line \<open>#\<close> \<open>111\<close> arrow \<open>222\<close> it makes the ID \<open>222\<close> where the other makes
  nothing.
\<close>

theorem validator_parser_lacks_rules:
  "parse_id_file_validate db [ascii ''123->456''] = []
   \<and> parse_id_file_coords db [ascii ''123->456''] = [ascii ''456'']
   \<and> parse_id_file_validate db [ascii ''# 111'' @ arrow @ ascii ''222''] = [ascii ''222'']
   \<and> parse_id_file_coords db [ascii ''# 111'' @ arrow @ ascii ''222''] = []"
proof (intro conjI)
  show "parse_id_file_validate db [ascii ''123->456''] = []"
    by (simp add: parse_id_file_validate_def parse_step_validate_def strip_def isspace_char_def
        isdigit_def isdigit_char_def ascii_digit_def ascii_def arrow_def Let_def)
  show "parse_id_file_coords db [ascii ''123->456''] = [ascii ''456'']"
    by (simp add: parse_id_file_coords_def parse_step_coords_def strip_def isspace_char_def
        isdigit_def isdigit_char_def ascii_digit_def ascii_def arrow_def Let_def startswith_def
        split_def)
  show "parse_id_file_validate db [ascii ''# 111'' @ arrow @ ascii ''222''] = [ascii ''222'']"
    by (simp add: parse_id_file_validate_def parse_step_validate_def strip_def isspace_char_def
        isdigit_def isdigit_char_def ascii_digit_def ascii_def arrow_def Let_def split_def)
  show "parse_id_file_coords db [ascii ''# 111'' @ arrow @ ascii ''222''] = []"
    by (simp add: parse_id_file_coords_def parse_step_coords_def strip_def isspace_char_def
        isdigit_def isdigit_char_def ascii_digit_def ascii_def arrow_def Let_def startswith_def
        split_def)
qed

section \<open>IDs with leading zeros\<close>

lemma digits_value_snoc: "digits_value (xs @ [c]) = 10 * digits_value xs + (c - 48)"
  by (simp add: digits_value_def)

lemma digits_value_str_nat: "digits_value (str_nat n) = n"
proof (induction n rule: str_nat.induct)
  case (1 n)
  show ?case
  proof (cases "n < 10")
    case True
    then have "str_nat n = [48 + n]" by (subst str_nat.simps) simp
    then show ?thesis by (simp add: digits_value_def)
  next
    case False
    with "1.IH" have ih: "digits_value (str_nat (n div 10)) = n div 10" by simp
    from False have "str_nat n = str_nat (n div 10) @ [48 + n mod 10]"
      by (subst str_nat.simps) simp
    with ih show ?thesis by (simp add: digits_value_snoc)
  qed
qed

lemma ascii_digit_classes:
  "ascii_digit c \<Longrightarrow> \<not> isspace_char db c \<and> isdigit_char db c \<and> c \<noteq> 8594"
  by (auto simp: ascii_digit_def isspace_char_def isdigit_char_def)

lemma dropWhile_hd: "s \<noteq> [] \<Longrightarrow> \<not> P (hd s) \<Longrightarrow> dropWhile P s = s"
  by (cases s) auto

lemma strip_digits:
  assumes "s \<noteq> []" "list_all ascii_digit s"
  shows "strip db s = s"
proof -
  from assms have "\<not> isspace_char db (hd s)" "\<not> isspace_char db (last s)"
    using ascii_digit_classes by (auto simp: list_all_iff)
  with assms(1) show ?thesis
    by (simp add: strip_def dropWhile_hd hd_rev)
qed

lemma digits_accepted:
  assumes "s \<noteq> []" "list_all ascii_digit s"
  shows "parse_step_validate db ids s = ids @ [s]"
proof -
  from assms(2) have "8594 \<notin> set s" "list_all (isdigit_char db) s"
    using ascii_digit_classes by (auto simp: list_all_iff)
  with assms show ?thesis
    by (simp add: parse_step_validate_def strip_digits Let_def arrow_def contains_single isdigit_def)
qed

text \<open>
  C10. A run of ASCII digits that is not the decimal notation of its value (it has
  leading zeros) is taken by the validator's parser as it stands; the worker converts it
  and makes its one call for the value; and since \<open>str\<close> of a root never has a leading
  zero, the comparison of texts never finds the ID unchanged: when the leaf's root is the
  ID's own value the line is the \<open>->\<close> line to the value's notation, and under any maps
  the pass over this ID leaves the unchanged counter alone.
\<close>

theorem leading_zeros_never_unchanged:
  assumes "s \<noteq> []" and "list_all ascii_digit s" and "s \<noteq> str_nat (digits_value s)"
  shows "parse_step_validate db ids s = ids @ [s]
   \<and> py_int db s = Inr (int (digits_value s))
   \<and> snd (get_one_supervoxel db get_leaves s q) = snd (get_leaves q (int (digits_value s)) None)
   \<and> (\<forall>x xs. fst (get_leaves q (int (digits_value s)) None) = Inr (x # xs) \<longrightarrow>
         fst (get_one_supervoxel db get_leaves s q) = (s, Resolved x))
   \<and> (map_of errors s = None \<and> map_of id_to_sv s = Some sv
        \<and> sv_to_root sv = Some (digits_value s) \<longrightarrow>
        build_step errors id_to_sv sv_to_root st s =
          st\<lparr>lines := lines st @ [s @ ascii ''    ->    '' @ str_nat (digits_value s)],
             changed_count := changed_count st + 1,
             updated_ids := updated_ids st @ [str_nat (digits_value s)]\<rparr>)
   \<and> unchanged_count (build_step errors id_to_sv sv_to_root st s) = unchanged_count st"
proof -
  have ne: "str_nat r \<noteq> s" for r
  proof
    assume "str_nat r = s"
    then have "s = str_nat (digits_value s)" using digits_value_str_nat [of r] by auto
    with assms(3) show False by simp
  qed
  have conv: "py_int db s = Inr (int (digits_value s))"
    using assms(1,2) by (simp add: py_int_def)
  have "unchanged_count (build_step errors id_to_sv sv_to_root st s) = unchanged_count st"
    using ne by (simp add: build_step_def Let_def split: option.splits)
  moreover have "map_of errors s = None \<and> map_of id_to_sv s = Some sv
        \<and> sv_to_root sv = Some (digits_value s) \<longrightarrow>
        build_step errors id_to_sv sv_to_root st s =
          st\<lparr>lines := lines st @ [s @ ascii ''    ->    '' @ str_nat (digits_value s)],
             changed_count := changed_count st + 1,
             updated_ids := updated_ids st @ [str_nat (digits_value s)]\<rparr>"
    using ne by (simp add: build_step_def Let_def)
  moreover have "snd (get_one_supervoxel db get_leaves s q)
      = snd (get_leaves q (int (digits_value s)) None)"
    by (simp add: get_one_supervoxel_def conv split: sum.splits prod.splits)
  moreover have "\<forall>x xs. fst (get_leaves q (int (digits_value s)) None) = Inr (x # xs) \<longrightarrow>
         fst (get_one_supervoxel db get_leaves s q) = (s, Resolved x)"
    by (auto simp: get_one_supervoxel_def conv split: sum.splits prod.splits)
  ultimately show ?thesis using conv digits_accepted [OF assms(1,2)] by blast
qed

theorem leading_zeros_never_unchanged_witness:
  "ascii ''007'' \<noteq> [] \<and> list_all ascii_digit (ascii ''007'')
   \<and> ascii ''007'' \<noteq> str_nat (digits_value (ascii ''007''))
   \<and> digits_value (ascii ''007'') = 7
   \<and> parse_step_validate ascii_db [] (ascii ''007'') = [ascii ''007'']
   \<and> py_int ascii_db (ascii ''007'') = Inr 7
   \<and> build_step [] [(ascii ''007'', 3)] [3 \<mapsto> 7]
        \<lparr>lines = [], changed_count = 0, unchanged_count = 0, error_count = 0, updated_ids = []\<rparr>
        (ascii ''007'')
      = \<lparr>lines = [ascii ''007    ->    7''], changed_count = 1, unchanged_count = 0,
         error_count = 0, updated_ids = [ascii ''7'']\<rparr>"
proof -
  have v: "digits_value (ascii ''007'') = 7" by (simp add: digits_value_def ascii_def)
  have h1: "ascii ''007'' \<noteq> []" by (simp add: ascii_def)
  have h2: "list_all ascii_digit (ascii ''007'')" by (simp add: ascii_def ascii_digit_def)
  have h3: "ascii ''007'' \<noteq> str_nat (digits_value (ascii ''007''))"
    unfolding v by (simp add: ascii_def str_nat.simps)
  have s7: "str_nat 7 = ascii ''7''" by (simp add: str_nat.simps ascii_def)
  have cat: "ascii ''007'' @ ascii ''    ->    '' @ ascii ''7'' = ascii ''007    ->    7''"
    by (simp add: ascii_def)
  note inst = leading_zeros_never_unchanged [OF h1 h2 h3, of ascii_db "[]" flaky_leaves 0 "[]"
      "[(ascii ''007'', 3)]" 3 "[3 \<mapsto> 7]"
      "\<lparr>lines = [], changed_count = 0, unchanged_count = 0, error_count = 0, updated_ids = []\<rparr>",
      unfolded v s7]
  from inst have imp: "map_of [] (ascii ''007'') = (None :: pystr option)
      \<and> map_of [(ascii ''007'', 3::nat)] (ascii ''007'') = Some 3 \<and> [3 \<mapsto> 7::nat] (3::nat) = Some 7 \<longrightarrow>
      build_step [] [(ascii ''007'', 3)] [3 \<mapsto> 7]
        \<lparr>lines = [], changed_count = 0, unchanged_count = 0, error_count = 0, updated_ids = []\<rparr>
        (ascii ''007'')
      = \<lparr>lines = [], changed_count = 0, unchanged_count = 0, error_count = 0, updated_ids = []\<rparr>
          \<lparr>lines := lines \<lparr>lines = [], changed_count = 0, unchanged_count = 0, error_count = 0,
                updated_ids = []\<rparr> @ [ascii ''007'' @ ascii ''    ->    '' @ ascii ''7''],
           changed_count := changed_count \<lparr>lines = [], changed_count = 0, unchanged_count = 0,
                error_count = 0, updated_ids = []\<rparr> + 1,
           updated_ids := updated_ids \<lparr>lines = [], changed_count = 0, unchanged_count = 0,
                error_count = 0, updated_ids = []\<rparr> @ [ascii ''7'']\<rparr>"
    by blast
  have m: "map_of [] (ascii ''007'') = (None :: pystr option)
      \<and> map_of [(ascii ''007'', 3::nat)] (ascii ''007'') = Some 3 \<and> [3 \<mapsto> 7::nat] (3::nat) = Some 7"
    by simp
  from imp m have "build_step [] [(ascii ''007'', 3)] [3 \<mapsto> 7]
        \<lparr>lines = [], changed_count = 0, unchanged_count = 0, error_count = 0, updated_ids = []\<rparr>
        (ascii ''007'')
      = \<lparr>lines = [ascii ''007    ->    7''], changed_count = 1, unchanged_count = 0,
         error_count = 0, updated_ids = [ascii ''7'']\<rparr>"
    by (simp add: cat)
  moreover from inst have "parse_step_validate ascii_db [] (ascii ''007'') = [ascii ''007'']"
    "py_int ascii_db (ascii ''007'') = Inr 7"
    by simp_all
  ultimately show ?thesis using h1 h2 h3 v by blast
qed

section \<open>Stage B: a chunk that raises\<close>






section \<open>Worker count and completion order\<close>

lemma fst_supervoxel_result: "fst (supervoxel_result db leaves k) = k"
  by (simp add: supervoxel_result_def get_one_supervoxel_def split: sum.splits prod.splits)

lemma fst_l2_result: "fst (l2_result db leaves k) = k"
  by (simp add: l2_result_def get_one_l2_def split: sum.splits prod.splits)

lemma map_of_foldl_collect_step:
  "map_of (fst (foldl collect_step (a, e) (map (\<lambda>k. (k, g k)) ks))) k
     = (if k \<in> set ks \<and> resolved_leaf (g k) \<noteq> None then resolved_leaf (g k) else map_of a k)
   \<and> map_of (snd (foldl collect_step (a, e) (map (\<lambda>k. (k, g k)) ks))) k
     = (if k \<in> set ks \<and> failure_reason (g k) \<noteq> None then failure_reason (g k) else map_of e k)
   \<and> (distinct (map fst a) \<longrightarrow>
        distinct (map fst (fst (foldl collect_step (a, e) (map (\<lambda>k. (k, g k)) ks)))))"
proof (induction ks arbitrary: a e)
  case Nil
  show ?case by simp
next
  case (Cons k0 ks)
  show ?case
  proof (cases "g k0")
    case (Resolved sv)
    then have step: "collect_step (a, e) (k0, g k0) = (AList.update k0 sv a, e)"
      by (simp add: collect_step_def)
    from Resolved have r: "resolved_leaf (g k0) = Some sv" "failure_reason (g k0) = None"
      by (simp_all add: resolved_leaf_def failure_reason_def)
    from Cons.IH [of "AList.update k0 sv a" e] r show ?thesis
      by (auto simp: step update_conv' distinct_update)
  next
    case (Failed m)
    then have step: "collect_step (a, e) (k0, g k0) = (a, AList.update k0 m e)"
      by (simp add: collect_step_def)
    from Failed have r: "resolved_leaf (g k0) = None" "failure_reason (g k0) = Some m"
      by (simp_all add: resolved_leaf_def failure_reason_def)
    from Cons.IH [of a "AList.update k0 m e"] r show ?thesis
      by (auto simp: step update_conv')
  qed
qed

lemma collect_of_function:
  "map_of (fst (collect (map (\<lambda>k. (k, g k)) ks)))
     = (\<lambda>k. if k \<in> set ks then resolved_leaf (g k) else None)"
  "map_of (snd (collect (map (\<lambda>k. (k, g k)) ks)))
     = (\<lambda>k. if k \<in> set ks then failure_reason (g k) else None)"
  "distinct (map fst (fst (collect (map (\<lambda>k. (k, g k)) ks))))"
  using map_of_foldl_collect_step [of "[]" "[]" g ks]
  by (auto simp: collect_def fun_eq_iff)

lemma concat_chunks: "0 < n \<Longrightarrow> concat (chunks n xs) = xs"
proof (induction n xs rule: chunks.induct)
  case (1 n xs)
  show ?case
  proof (cases "xs = []")
    case True
    then show ?thesis by (simp add: chunks.simps)
  next
    case False
    with "1.prems" "1.IH" have "concat (chunks n (drop n xs)) = drop n xs" by simp
    with False "1.prems" show ?thesis by (subst chunks.simps) simp
  qed
qed

lemma set_chunks: "0 < n \<Longrightarrow> \<Union>(set ` set (chunks n xs)) = set xs"
  using concat_chunks [of n xs] by (metis set_concat)

lemma in_chunks: "0 < n \<Longrightarrow> (\<exists>c \<in> set (chunks n xs). x \<in> set c) \<longleftrightarrow> x \<in> set xs"
  using set_chunks [of n xs] by blast

lemma foldl_zip_pointwise:
  "foldl (\<lambda>m (sv, new_root). m(sv \<mapsto> new_root)) m (zip c (map root_of c))
     = (\<lambda>sv. if sv \<in> set c then Some (root_of sv) else m sv)"
  by (induction c arbitrary: m) (auto simp: fun_eq_iff)

lemma roots_loop_pointwise:
  assumes "\<forall>chunk. get_roots chunk = Inr (map root_of chunk)"
  shows "roots_loop get_roots cs m
     = Inr (\<lambda>sv. if sv \<in> \<Union>(set ` set cs) then Some (root_of sv) else m sv)"
proof (induction cs arbitrary: m)
  case Nil
  show ?case by simp
next
  case (Cons c cs)
  from assms have "get_roots c = Inr (map root_of c)" by simp
  with Cons.IH [of "\<lambda>sv. if sv \<in> set c then Some (root_of sv) else m sv"]
  show ?case by (auto simp: foldl_zip_pointwise fun_eq_iff)
qed

lemma lookup_roots_pointwise:
  assumes "\<forall>chunk. get_roots chunk = Inr (map root_of chunk)"
    and "distinct (map fst id_to_sv)"
  shows "lookup_roots get_roots id_to_sv
     = Inr (\<lambda>sv. if sv \<in> ran (map_of id_to_sv) then Some (root_of sv) else None)"
  using roots_loop_pointwise [OF assms(1)] ran_distinct [OF assms(2)]
  by (simp add: lookup_roots_def in_chunks)

lemma restrict_map_add: "(t |` A) ++ (t |` B) = t |` (A \<union> B)"
  by (auto simp: fun_eq_iff map_add_def restrict_map_def split: option.splits)

lemma l2_loop_pointwise:
  assumes "\<forall>chunk. get_l2data chunk = Inr (table |` (str_nat ` set chunk))"
  shows "l2_loop get_l2data cs m = m ++ (table |` (str_nat ` \<Union>(set ` set cs)))"
proof (induction cs arbitrary: m)
  case Nil
  show ?case by simp
next
  case (Cons c cs)
  from assms have "get_l2data c = Inr (table |` (str_nat ` set c))" by simp
  moreover have "m ++ (table |` (str_nat ` set c)) ++ (table |` (str_nat ` \<Union>(set ` set cs)))
      = m ++ (table |` (str_nat ` \<Union>(set ` set (c # cs))))"
    unfolding map_add_assoc [symmetric] restrict_map_add by (simp add: image_Un)
  ultimately show ?case
    using Cons.IH [of "m ++ (table |` (str_nat ` set c))"] by simp
qed

lemma fetch_l2_data_pointwise:
  assumes "\<forall>chunk. get_l2data chunk = Inr (table |` (str_nat ` set chunk))"
    and "distinct (map fst id_to_l2)"
  shows "fetch_l2_data get_l2data id_to_l2 = table |` (str_nat ` ran (map_of id_to_l2))"
  using l2_loop_pointwise [OF assms(1), of "chunks 100 (map snd id_to_l2)" Map.empty]
    ran_distinct [OF assms(2)] set_chunks [of 100 "map snd id_to_l2"]
  by (simp add: fetch_l2_data_def)

lemma build_results_by_lookup:
  assumes "map_of E = map_of E'" and "map_of I = map_of I'"
  shows "build_results ids E I R = build_results ids E' I' R"
proof -
  have "build_step E I R = build_step E' I' R"
    unfolding fun_eq_iff build_step_def assms by simp
  then show ?thesis by (simp add: build_results_def)
qed

lemma build_output_by_lookup:
  assumes "map_of E = map_of E'" and "map_of I = map_of I'"
  shows "build_output vr ids E I D = build_output vr ids E' I' D"
proof -
  have "output_step vr E I D = output_step vr E' I' D"
    unfolding fun_eq_iff output_step_def assms by simp
  then show ?thesis by (simp add: build_output_def)
qed

lemma collect_by_order:
  assumes "set order1 = set order2"
  shows "map_of (fst (collect (map (\<lambda>k. (k, g k)) order1)))
           = map_of (fst (collect (map (\<lambda>k. (k, g k)) order2)))"
    "map_of (snd (collect (map (\<lambda>k. (k, g k)) order1)))
           = map_of (snd (collect (map (\<lambda>k. (k, g k)) order2)))"
  by (simp_all add: collect_of_function assms)

lemma supervoxel_results_as_function:
  "map (supervoxel_result db leaves) ks
     = map (\<lambda>k. (k, snd (supervoxel_result db leaves k))) ks"
  using fst_supervoxel_result [of db leaves] by (simp add: prod_eq_iff)

lemma l2_results_as_function:
  "map (l2_result db leaves) ks = map (\<lambda>k. (k, snd (l2_result db leaves k))) ks"
  using fst_l2_result [of db leaves] by (simp add: prod_eq_iff)

lemma main_validate_by_order:
  assumes "set order1 = set order2" and "0 < w1" and "0 < w2"
    and "\<forall>chunk. get_roots chunk = Inr (map root_of chunk)"
  shows "main_validate db w2 get_roots f (map (supervoxel_result db leaves) order2)
       = map_sum id (\<lambda>r. r\<lparr>workers := w2\<rparr>)
           (main_validate db w1 get_roots f (map (supervoxel_result db leaves) order1))"
proof -
  let ?g = "\<lambda>k. snd (supervoxel_result db leaves k)"
  obtain I1 E1 where c1: "collect (map (\<lambda>k. (k, ?g k)) order1) = (I1, E1)"
    by (cases "collect (map (\<lambda>k. (k, ?g k)) order1)") auto
  obtain I2 E2 where c2: "collect (map (\<lambda>k. (k, ?g k)) order2) = (I2, E2)"
    by (cases "collect (map (\<lambda>k. (k, ?g k)) order2)") auto
  from collect_by_order [OF assms(1), of ?g] c1 c2
  have eq: "map_of I1 = map_of I2" "map_of E1 = map_of E2" by simp_all
  from collect_of_function(3) [of ?g order1] collect_of_function(3) [of ?g order2] c1 c2
  have d: "distinct (map fst I1)" "distinct (map fst I2)" by simp_all
  from lookup_roots_pointwise [OF assms(4) d(1)] lookup_roots_pointwise [OF assms(4) d(2)] eq
  obtain R where r: "lookup_roots get_roots I1 = Inr R" "lookup_roots get_roots I2 = Inr R"
    by simp
  have b: "build_results ids E1 I1 R = build_results ids E2 I2 R" for ids
    by (rule build_results_by_lookup [OF eq(2) eq(1)])
  show ?thesis
    unfolding supervoxel_results_as_function
    using assms(2,3) c1 c2 r b
    by (simp add: main_validate_def Let_def)
qed

lemma main_coords_by_order:
  assumes "set order1 = set order2" and "0 < w1" and "0 < w2"
    and "\<forall>chunk. get_l2data chunk = Inr (table |` (str_nat ` set chunk))"
  shows "main_coords db w2 vr get_l2data f (map (l2_result db leaves) order2)
       = main_coords db w1 vr get_l2data f (map (l2_result db leaves) order1)"
proof -
  let ?g = "\<lambda>k. snd (l2_result db leaves k)"
  obtain I1 E1 where c1: "collect (map (\<lambda>k. (k, ?g k)) order1) = (I1, E1)"
    by (cases "collect (map (\<lambda>k. (k, ?g k)) order1)") auto
  obtain I2 E2 where c2: "collect (map (\<lambda>k. (k, ?g k)) order2) = (I2, E2)"
    by (cases "collect (map (\<lambda>k. (k, ?g k)) order2)") auto
  from collect_by_order [OF assms(1), of ?g] c1 c2
  have eq: "map_of I1 = map_of I2" "map_of E1 = map_of E2" by simp_all
  from collect_of_function(3) [of ?g order1] collect_of_function(3) [of ?g order2] c1 c2
  have d: "distinct (map fst I1)" "distinct (map fst I2)" by simp_all
  from fetch_l2_data_pointwise [OF assms(4) d(1)] fetch_l2_data_pointwise [OF assms(4) d(2)] eq
  have r: "fetch_l2_data get_l2data I1 = fetch_l2_data get_l2data I2" by simp
  have b: "build_output vr ids E1 I1 D = build_output vr ids E2 I2 D" for ids D
    by (rule build_output_by_lookup [OF eq(2) eq(1)])
  show ?thesis
    unfolding l2_results_as_function
    using assms(2,3) c1 c2 r b
    by (simp add: main_coords_def Let_def)
qed

lemma main_validate_reports:
  assumes "parse_id_file_validate db f \<noteq> []" and "0 < w"
    and "\<forall>chunk. get_roots chunk = Inr (map root_of chunk)"
  shows "\<exists>rep. main_validate db w get_roots f (map (supervoxel_result db leaves) order) = Inr rep"
proof -
  let ?g = "\<lambda>k. snd (supervoxel_result db leaves k)"
  obtain I E where c: "collect (map (\<lambda>k. (k, ?g k)) order) = (I, E)"
    by (cases "collect (map (\<lambda>k. (k, ?g k)) order)") auto
  from collect_of_function(3) [of ?g order] c have "distinct (map fst I)" by simp
  from lookup_roots_pointwise [OF assms(3) this]
  obtain R where "lookup_roots get_roots I = Inr R" by simp
  with assms(1,2) c show ?thesis
    unfolding supervoxel_results_as_function by (simp add: main_validate_def Let_def)
qed

text \<open>
  C8, as the code has it. Let the service answer every leaf request by a fixed function
  of the request, and every batch request leaf by leaf: \<open>get_roots\<close> with the root of
  each leaf, \<open>get_l2data\<close> with the table's entries for the leaves asked. Then for any
  two orders in which the tasks of the parsed IDs complete and any two worker counts,
  the validator writes the same report up to the worker count in its header (and does
  write one when there are IDs), and the coordinate fetcher writes the same file.
\<close>

theorem report_independent_of_schedule:
  "(mset order1 = mset (parse_id_file_validate db f) \<and> mset order2 = mset (parse_id_file_validate db f)
      \<and> 0 < w1 \<and> 0 < w2 \<and> (\<forall>chunk. get_roots chunk = Inr (map root_of chunk)) \<longrightarrow>
      main_validate db w2 get_roots f (map (supervoxel_result db leaves) order2)
        = map_sum id (\<lambda>r. r\<lparr>workers := w2\<rparr>)
            (main_validate db w1 get_roots f (map (supervoxel_result db leaves) order1))
      \<and> (parse_id_file_validate db f \<noteq> [] \<longrightarrow>
           (\<exists>rep. main_validate db w1 get_roots f (map (supervoxel_result db leaves) order1) = Inr rep)))
   \<and> (mset order1 = mset (parse_id_file_coords db f) \<and> mset order2 = mset (parse_id_file_coords db f)
      \<and> 0 < w1 \<and> 0 < w2
      \<and> (\<forall>chunk. get_l2data chunk = Inr (table |` (str_nat ` set chunk))) \<longrightarrow>
      main_coords db w2 viewer_res get_l2data f (map (l2_result db leaves) order2)
        = main_coords db w1 viewer_res get_l2data f (map (l2_result db leaves) order1))"
proof (intro conjI impI)
  assume a: "mset order1 = mset (parse_id_file_validate db f)
      \<and> mset order2 = mset (parse_id_file_validate db f)
      \<and> 0 < w1 \<and> 0 < w2 \<and> (\<forall>chunk. get_roots chunk = Inr (map root_of chunk))"
  then have "set order1 = set order2" by (metis set_mset_mset)
  with a show "main_validate db w2 get_roots f (map (supervoxel_result db leaves) order2)
        = map_sum id (\<lambda>r. r\<lparr>workers := w2\<rparr>)
            (main_validate db w1 get_roots f (map (supervoxel_result db leaves) order1))"
    using main_validate_by_order by blast
  assume "parse_id_file_validate db f \<noteq> []"
  with a show "\<exists>rep. main_validate db w1 get_roots f (map (supervoxel_result db leaves) order1) = Inr rep"
    using main_validate_reports by blast
next
  assume a: "mset order1 = mset (parse_id_file_coords db f)
      \<and> mset order2 = mset (parse_id_file_coords db f)
      \<and> 0 < w1 \<and> 0 < w2
      \<and> (\<forall>chunk. get_l2data chunk = Inr (table |` (str_nat ` set chunk)))"
  then have "set order1 = set order2" by (metis set_mset_mset)
  with a show "main_coords db w2 viewer_res get_l2data f (map (l2_result db leaves) order2)
        = main_coords db w1 viewer_res get_l2data f (map (l2_result db leaves) order1)"
    using main_coords_by_order by blast
qed

theorem report_independent_of_schedule_witness:
  "mset [ascii ''6'', ascii ''5''] = mset (parse_id_file_validate ascii_db [ascii ''5'', ascii ''6''])
   \<and> mset [ascii ''6'', ascii ''5''] = mset (parse_id_file_coords ascii_db [ascii ''5'', ascii ''6''])
   \<and> (0::int) < 1 \<and> (0::int) < 20
   \<and> (\<forall>chunk. echo_roots chunk = Inr (map id chunk))
   \<and> main_validate ascii_db 20 echo_roots [ascii ''5'', ascii ''6'']
        (map (supervoxel_result ascii_db own_leaf) [ascii ''6'', ascii ''5''])
      = map_sum id (\<lambda>r. r\<lparr>workers := 20\<rparr>)
          (main_validate ascii_db 1 echo_roots [ascii ''5'', ascii ''6'']
            (map (supervoxel_result ascii_db own_leaf) [ascii ''5'', ascii ''6'']))
   \<and> (\<exists>rep. main_validate ascii_db 1 echo_roots [ascii ''5'', ascii ''6'']
            (map (supervoxel_result ascii_db own_leaf) [ascii ''5'', ascii ''6'']) = Inr rep)
   \<and> main_coords ascii_db 20 (4, 4, 40)
        (\<lambda>chunk. Inr ((\<lambda>key. Some \<lparr>rep_coord_nm = Some (400, 800, 1600)\<rparr>) |` (str_nat ` set chunk)))
        [ascii ''5'', ascii ''6''] (map (l2_result ascii_db own_leaf) [ascii ''6'', ascii ''5''])
      = main_coords ascii_db 1 (4, 4, 40)
        (\<lambda>chunk. Inr ((\<lambda>key. Some \<lparr>rep_coord_nm = Some (400, 800, 1600)\<rparr>) |` (str_nat ` set chunk)))
        [ascii ''5'', ascii ''6''] (map (l2_result ascii_db own_leaf) [ascii ''5'', ascii ''6''])"
proof -
  let ?f = "[ascii ''5'', ascii ''6'']"
  let ?tbl = "\<lambda>key::pystr. Some \<lparr>rep_coord_nm = Some (400, 800, 1600)\<rparr>"
  let ?l2 = "\<lambda>chunk::nat list. (Inr (?tbl |` (str_nat ` set chunk)) :: pystr + (pystr \<rightharpoonup> l2_attrs))"
  have pv: "parse_id_file_validate ascii_db ?f = ?f"
    by (simp add: parse_id_file_validate_def parse_step_validate_def strip_def isspace_char_def
        isdigit_def isdigit_char_def ascii_digit_def ascii_def arrow_def Let_def)
  have pc: "parse_id_file_coords ascii_db ?f = ?f"
    by (simp add: parse_id_file_coords_def parse_step_coords_def strip_def isspace_char_def
        isdigit_def isdigit_char_def ascii_digit_def ascii_def arrow_def Let_def startswith_def)
  have m: "mset [ascii ''6'', ascii ''5''] = mset ?f" by simp
  have w: "(0::int) < 1" "(0::int) < 20" by simp_all
  have r: "\<forall>chunk. echo_roots chunk = Inr (map id chunk)" by (simp add: echo_roots_def)
  have t: "\<forall>chunk. ?l2 chunk = Inr (?tbl |` (str_nat ` set chunk))" by simp
  have ne: "parse_id_file_validate ascii_db ?f \<noteq> []" by (simp add: pv)
  note inst = report_independent_of_schedule [of ?f ascii_db ?f "[ascii ''6'', ascii ''5'']" 1 20
      echo_roots id own_leaf ?l2 ?tbl "(4, 4, 40)"]
  from inst m w r ne have v: "main_validate ascii_db 20 echo_roots ?f
        (map (supervoxel_result ascii_db own_leaf) [ascii ''6'', ascii ''5''])
      = map_sum id (\<lambda>r. r\<lparr>workers := 20\<rparr>)
          (main_validate ascii_db 1 echo_roots ?f (map (supervoxel_result ascii_db own_leaf) ?f))"
    "\<exists>rep. main_validate ascii_db 1 echo_roots ?f
            (map (supervoxel_result ascii_db own_leaf) ?f) = Inr rep"
    unfolding pv pc by simp_all
  from inst m w t have c: "main_coords ascii_db 20 (4, 4, 40) ?l2 ?f
        (map (l2_result ascii_db own_leaf) [ascii ''6'', ascii ''5''])
      = main_coords ascii_db 1 (4, 4, 40) ?l2 ?f (map (l2_result ascii_db own_leaf) ?f)"
    unfolding pv pc by simp
  from m w r v c show ?thesis unfolding pv pc by simp
qed

subsection \<open>A schedule that changes the report\<close>

lemma str_nat_digits: "str_nat n \<noteq> [] \<and> list_all ascii_digit (str_nat n)"
proof (induction n rule: str_nat.induct)
  case (1 n)
  show ?case
  proof (cases "n < 10")
    case True
    then have "str_nat n = [48 + n]" by (subst str_nat.simps) simp
    with True show ?thesis by (simp add: ascii_digit_def)
  next
    case False
    then have "str_nat n = str_nat (n div 10) @ [48 + n mod 10]" by (subst str_nat.simps) simp
    moreover have "ascii_digit (48 + n mod 10)" by (simp add: ascii_digit_def)
    ultimately show ?thesis using "1.IH" False by simp
  qed
qed

lemma inj_str_nat: "str_nat m = str_nat n \<Longrightarrow> m = n"
  by (metis digits_value_str_nat)

lemma py_int_str_nat: "py_int db (str_nat n) = Inr (int n)"
  using str_nat_digits [of n] by (simp add: py_int_def digits_value_str_nat)

lemma l2_result_own_leaf: "l2_result db own_leaf (str_nat n) = (str_nat n, Resolved n)"
  by (simp add: l2_result_def get_one_l2_def py_int_str_nat own_leaf_def)

lemma contains_subset: "contains sub s \<Longrightarrow> set sub \<subseteq> set s"
proof (induction s)
  case Nil
  then show ?case by simp
next
  case (Cons c cs)
  from Cons.prems have "prefix sub (c # cs) \<or> contains sub cs" by simp
  then show ?case
  proof
    assume "prefix sub (c # cs)"
    then show ?thesis by (rule set_mono_prefix)
  next
    assume "contains sub cs"
    with Cons.IH show ?thesis by auto
  qed
qed

lemma coords_digits_accepted:
  assumes "s \<noteq> []" "list_all ascii_digit s"
  shows "parse_step_coords db [] s = [s]"
proof -
  from assms(2) have no: "8594 \<notin> set s" "45 \<notin> set s" "35 \<notin> set s" "list_all (isdigit_char db) s"
    using ascii_digit_classes by (auto simp: list_all_iff ascii_digit_def)
  from no(2) have "\<not> contains (ascii ''->'') s"
    using contains_subset [of "ascii ''->''" s] by (auto simp: ascii_def)
  moreover from no(3) assms(1) have "\<not> startswith s (ascii ''#'')"
    by (cases s) (auto simp: startswith_def ascii_def)
  ultimately show ?thesis using assms no
    by (simp add: parse_step_coords_def strip_digits Let_def arrow_def contains_single isdigit_def)
qed

lemma parse_coords_str_nat: "parse_id_file_coords db (map str_nat ns) = map str_nat ns"
proof -
  have "map (parse_step_coords db []) (map str_nat ns) = map (\<lambda>n. [str_nat n]) ns"
    using str_nat_digits by (simp add: coords_digits_accepted)
  then show ?thesis
    by (simp add: parse_id_file_coords_grammar(1)) (induction ns, simp_all)
qed

lemma update_absent: "k \<notin> fst ` set al \<Longrightarrow> AList.update k v al = al @ [(k, v)]"
  by (induction al) auto

lemma collect_all_resolved:
  "distinct ks \<Longrightarrow> set ks \<inter> fst ` set a = {} \<Longrightarrow>
   foldl collect_step (a, e) (map (\<lambda>k. (k, Resolved (l k))) ks) = (a @ map (\<lambda>k. (k, l k)) ks, e)"
proof (induction ks arbitrary: a)
  case Nil
  show ?case by simp
next
  case (Cons k ks)
  from Cons.prems have k: "k \<notin> fst ` set a" by auto
  then have step: "collect_step (a, e) (k, Resolved (l k)) = (a @ [(k, l k)], e)"
    by (simp add: collect_step_def update_absent)
  from Cons.prems have "distinct ks" "set ks \<inter> fst ` set (a @ [(k, l k)]) = {}" by auto
  from Cons.IH [OF this] show ?case by (simp add: step)
qed

lemma collect_str_nat:
  assumes "distinct ns"
  shows "collect (map (l2_result db own_leaf) (map str_nat ns)) = (map (\<lambda>n. (str_nat n, n)) ns, [])"
proof -
  have d: "distinct (map str_nat ns)"
    using assms inj_str_nat by (simp add: distinct_map inj_on_def)
  have e: "map (l2_result db own_leaf) (map str_nat ns)
      = map (\<lambda>k. (k, Resolved (digits_value k))) (map str_nat ns)"
    by (simp add: l2_result_own_leaf digits_value_str_nat)
  have "collect (map (l2_result db own_leaf) (map str_nat ns))
      = foldl collect_step ([], []) (map (\<lambda>k. (k, Resolved (digits_value k))) (map str_nat ns))"
    unfolding collect_def e ..
  also have "\<dots> = ([] @ map (\<lambda>k. (k, digits_value k)) (map str_nat ns), [])"
    by (rule collect_all_resolved [OF d]) simp
  also have "\<dots> = (map (\<lambda>n. (str_nat n, n)) ns, [])"
    by (simp add: digits_value_str_nat comp_def)
  finally show ?thesis .
qed

lemma map_of_str_nat:
  "n \<in> set ns \<Longrightarrow> map_of (map (\<lambda>n. (str_nat n, n)) ns) (str_nat n) = Some n"
  by (induction ns) (auto dest: inj_str_nat)

lemma main_coords_row:
  assumes "parse_id_file_coords db f = ids" and "ids \<noteq> []" and "0 < w"
    and "collect completed = (I, E)"
    and "r0 \<noteq> 0" "r1 \<noteq> 0" "r2 \<noteq> 0" and "i < length ids"
  shows "\<exists>st. main_coords db w (r0, r1, r2) g f completed = Inr st
     \<and> out_lines st ! Suc i = output_line (r0, r1, r2) E I (fetch_l2_data g I) (ids ! i)"
proof -
  from build_output_total [OF assms(5,6,7)] obtain st where
    st: "build_output (r0, r1, r2) ids E I (fetch_l2_data g I) = Inr st" by blast
  then have "out_lines st ! Suc i = output_line (r0, r1, r2) E I (fetch_l2_data g I) (ids ! i)"
    unfolding build_output_def using output_loop_shape assms(8) by fastforce
  moreover from st assms(1-4) have "main_coords db w (r0, r1, r2) g f completed = Inr st"
    by (simp add: main_coords_def Let_def)
  ultimately show ?thesis by blast
qed

lemma chunks_in_order: "chunks 100 [1..<102] = [[1..<101], [101]]"
proof -
  have "chunks 100 [1..<102] = [1..<101] # chunks 100 [101..<102]"
    by (subst chunks.simps) (simp add: take_upt drop_upt)
  moreover have "chunks 100 [101..<102] = [[101]]"
    by (simp add: chunks.simps upt_rec)
  ultimately show ?thesis by simp
qed

lemma chunks_first_done_last: "chunks 100 ([2..<102] @ [1]) = [[2..<102], [1]]"
proof -
  have "chunks 100 ([2..<102] @ [1]) = [2..<102] # chunks 100 [1]"
    by (subst chunks.simps) simp
  moreover have "chunks 100 [1::nat] = [[1]]"
    by (simp add: chunks.simps)
  ultimately show ?thesis by simp
qed

lemma first_done_last_eq: "first_done_last = map str_nat ([2..<102] @ [1])"
proof -
  have "[1..<102] = 1 # [2..<102]" by (simp add: upt_rec)
  then show ?thesis by (simp add: first_done_last_def ids_1_to_101_def)
qed

lemma leaves_str_nat: "map snd (map (\<lambda>n. (str_nat n, n)) ns) = ns"
  by (simp add: comp_def)

lemma l2_data_in_order:
  "fetch_l2_data fragile_l2data (map (\<lambda>n. (str_nat n, n)) [1..<102]) (str_nat 2) = None"
proof -
  let ?m = "\<lambda>key. if key \<in> set (map str_nat [101])
                     then Some \<lparr>rep_coord_nm = Some (0, 0, 0)\<rparr> else None"
  have f1: "fragile_l2data [1..<101] = Inl (ascii ''504 Gateway Timeout'')"
    by (simp add: fragile_l2data_def)
  have f2: "fragile_l2data [101] = Inr ?m"
    by (simp add: fragile_l2data_def)
  have "fetch_l2_data fragile_l2data (map (\<lambda>n. (str_nat n, n)) [1..<102])
      = l2_loop fragile_l2data [[1..<101], [101]] Map.empty"
    unfolding fetch_l2_data_def Let_def leaves_str_nat chunks_in_order ..
  also have "\<dots> = Map.empty ++ ?m"
    unfolding l2_loop.simps f1 f2 by simp
  finally have "fetch_l2_data fragile_l2data (map (\<lambda>n. (str_nat n, n)) [1..<102]) = ?m"
    by simp
  moreover have "str_nat 2 \<noteq> str_nat 101" using inj_str_nat [of 2 101] by auto
  ultimately show ?thesis by simp
qed

lemma l2_data_first_done_last:
  "fetch_l2_data fragile_l2data (map (\<lambda>n. (str_nat n, n)) ([2..<102] @ [1])) (str_nat 2)
     = Some \<lparr>rep_coord_nm = Some (0, 0, 0)\<rparr>"
proof -
  let ?m = "\<lambda>key. if key \<in> set (map str_nat [2..<102])
                     then Some \<lparr>rep_coord_nm = Some (0, 0, 0)\<rparr> else None"
  have f1: "fragile_l2data [1] = Inl (ascii ''504 Gateway Timeout'')"
    by (simp add: fragile_l2data_def)
  have f2: "fragile_l2data [2..<102] = Inr ?m"
    by (simp add: fragile_l2data_def)
  have "fetch_l2_data fragile_l2data (map (\<lambda>n. (str_nat n, n)) ([2..<102] @ [1]))
      = l2_loop fragile_l2data [[2..<102], [1]] Map.empty"
    unfolding fetch_l2_data_def Let_def leaves_str_nat chunks_first_done_last ..
  also have "\<dots> = Map.empty ++ ?m"
    unfolding l2_loop.simps f1 f2 by simp
  finally have "fetch_l2_data fragile_l2data (map (\<lambda>n. (str_nat n, n)) ([2..<102] @ [1])) = ?m"
    by simp
  moreover have "str_nat 2 \<in> set (map str_nat [2..<102])" by simp
  ultimately show ?thesis by simp
qed

lemma mset_first_last: "xs \<noteq> [] \<Longrightarrow> mset (tl xs @ [hd xs]) = mset xs"
  by (cases xs) simp_all

lemma output_line_unavailable:
  "map_of E k = None \<Longrightarrow> map_of I k = Some l \<Longrightarrow> D (str_nat l) = None \<Longrightarrow>
   output_line vr E I D k = k @ tab @ ascii ''N/A'' @ tab @ ascii ''N/A'' @ tab @ ascii ''N/A''"
  by (simp add: output_line_def output_step_def Let_def)

lemma output_line_coords:
  "map_of E k = None \<Longrightarrow> map_of I k = Some l \<Longrightarrow> D (str_nat l) = Some attrs \<Longrightarrow>
   rep_coord_nm attrs = Some c \<Longrightarrow> voxel c vr = Inr (x, y, z) \<Longrightarrow>
   output_line vr E I D k = k @ tab @ str_int x @ tab @ str_int y @ tab @ str_int z"
  by (simp add: output_line_def output_step_def Let_def)

lemma coords_rows_depend_on_order:
  "main_coords ascii_db 20 (4, 4, 40) fragile_l2data ids_1_to_101
       (map (l2_result ascii_db own_leaf) first_done_last)
     \<noteq> main_coords ascii_db 20 (4, 4, 40) fragile_l2data ids_1_to_101
       (map (l2_result ascii_db own_leaf) ids_1_to_101)"
proof -
  let ?I1 = "map (\<lambda>n. (str_nat n, n)) [1..<102]"
  let ?I2 = "map (\<lambda>n. (str_nat n, n)) ([2..<102] @ [1])"
  have p: "parse_id_file_coords ascii_db ids_1_to_101 = ids_1_to_101"
    by (simp add: ids_1_to_101_def parse_coords_str_nat)
  have ne: "ids_1_to_101 \<noteq> []" by (simp add: ids_1_to_101_def upt_rec)
  have len: "1 < length ids_1_to_101" by (simp add: ids_1_to_101_def)
  have id2: "ids_1_to_101 ! 1 = str_nat 2" by (simp add: ids_1_to_101_def numeral_2_eq_2)
  have c1: "collect (map (l2_result ascii_db own_leaf) ids_1_to_101) = (?I1, [])"
    unfolding ids_1_to_101_def by (rule collect_str_nat) simp
  have c2: "collect (map (l2_result ascii_db own_leaf) first_done_last) = (?I2, [])"
    unfolding first_done_last_eq by (rule collect_str_nat) simp
  have nz: "(4::rat) \<noteq> 0" "(40::rat) \<noteq> 0" by simp_all
  have w: "(0::int) < 20" by simp
  from main_coords_row [OF p ne w c1 nz(1) nz(1) nz(2) len, of fragile_l2data]
  obtain st1 where
    st1: "main_coords ascii_db 20 (4, 4, 40) fragile_l2data ids_1_to_101
           (map (l2_result ascii_db own_leaf) ids_1_to_101) = Inr st1" and
    row1: "out_lines st1 ! Suc 1
           = output_line (4, 4, 40) [] ?I1 (fetch_l2_data fragile_l2data ?I1) (str_nat 2)"
    unfolding id2 by blast
  from main_coords_row [OF p ne w c2 nz(1) nz(1) nz(2) len, of fragile_l2data]
  obtain st2 where
    st2: "main_coords ascii_db 20 (4, 4, 40) fragile_l2data ids_1_to_101
           (map (l2_result ascii_db own_leaf) first_done_last) = Inr st2" and
    row2: "out_lines st2 ! Suc 1
           = output_line (4, 4, 40) [] ?I2 (fetch_l2_data fragile_l2data ?I2) (str_nat 2)"
    unfolding id2 by blast
  have l1: "map_of ?I1 (str_nat 2) = Some 2" by (rule map_of_str_nat) simp
  have l2: "map_of ?I2 (str_nat 2) = Some 2" by (rule map_of_str_nat) simp
  have v: "voxel (0, 0, 0) (4, 4, 40) = Inr (0, 0, 0)"
    by (simp add: voxel_def int_div_def trunc_def)
  have r1: "out_lines st1 ! Suc 1
      = str_nat 2 @ tab @ ascii ''N/A'' @ tab @ ascii ''N/A'' @ tab @ ascii ''N/A''"
    unfolding row1
    using output_line_unavailable [of "[]" "str_nat 2" ?I1 2 "fetch_l2_data fragile_l2data ?I1"
        "(4, 4, 40)"] l1 l2_data_in_order
    by simp
  have r2: "out_lines st2 ! Suc 1
      = str_nat 2 @ tab @ str_int 0 @ tab @ str_int 0 @ tab @ str_int 0"
    unfolding row2
    using output_line_coords [of "[]" "str_nat 2" ?I2 2 "fetch_l2_data fragile_l2data ?I2"
        "\<lparr>rep_coord_nm = Some (0, 0, 0)\<rparr>" "(0, 0, 0)" "(4, 4, 40)" 0 0 0]
      l2 l2_data_first_done_last v
    by simp
  have "out_lines st1 ! Suc 1 \<noteq> out_lines st2 ! Suc 1"
    unfolding r1 r2 by (simp add: str_int_def str_nat.simps ascii_def tab_def)
  then have "st1 \<noteq> st2" by auto
  with st1 st2 show ?thesis by simp
qed

lemma validator_header_depends_on_workers:
  "main_validate ascii_db 20 echo_roots [ascii ''5'']
       (map (supervoxel_result ascii_db own_leaf) [ascii ''5''])
     \<noteq> main_validate ascii_db 1 echo_roots [ascii ''5'']
       (map (supervoxel_result ascii_db own_leaf) [ascii ''5''])"
proof -
  have p: "parse_id_file_validate ascii_db [ascii ''5''] = [ascii ''5'']"
    by (simp add: parse_id_file_validate_def parse_step_validate_def strip_def isspace_char_def
        isdigit_def isdigit_char_def ascii_digit_def ascii_def arrow_def Let_def)
  have r: "\<forall>chunk. echo_roots chunk = Inr (map id chunk)" by (simp add: echo_roots_def)
  from main_validate_reports [of ascii_db "[ascii ''5'']" 1 echo_roots id own_leaf "[ascii ''5'']"] p r
  obtain rep where rep: "main_validate ascii_db 1 echo_roots [ascii ''5'']
       (map (supervoxel_result ascii_db own_leaf) [ascii ''5'']) = Inr rep"
    by auto
  then have w1: "workers rep = 1"
    by (auto simp: main_validate_def Let_def split: if_splits prod.splits sum.splits)
  from main_validate_by_order [of "[ascii ''5'']" "[ascii ''5'']" 1 20 echo_roots id ascii_db
      "[ascii ''5'']" own_leaf] r rep
  have "main_validate ascii_db 20 echo_roots [ascii ''5'']
       (map (supervoxel_result ascii_db own_leaf) [ascii ''5'']) = Inr (rep\<lparr>workers := 20\<rparr>)"
    by simp
  moreover from w1 have "rep\<lparr>workers := 20\<rparr> \<noteq> rep"
    by (metis validation_report.select_convs(5) validation_report.surjective
        validation_report.update_convs(5) numeral_eq_one_iff num.distinct(1))
  ultimately show ?thesis using rep by simp
qed

text \<open>
  C8 as stated fails twice over. The fetcher cuts the leaves into chunks in the order
  in which the tasks completed. Against \<open>fragile_l2data\<close> and the file of the IDs 1 to
  101, completion in file order puts leaf 1 into the first chunk of 100, which times
  out, and 100 rows are \<open>N/A\<close>; when the first task completes last, leaf 1 is alone in
  the second chunk and only its row is. And the validator's header records the worker
  count, so the reports of a run with 20 workers and of a run with one differ.
\<close>

theorem report_independent_of_schedule_counterexample:
  "mset first_done_last = mset (parse_id_file_coords ascii_db ids_1_to_101)
   \<and> mset ids_1_to_101 = mset (parse_id_file_coords ascii_db ids_1_to_101)
   \<and> main_coords ascii_db 20 (4, 4, 40) fragile_l2data ids_1_to_101
        (map (l2_result ascii_db own_leaf) first_done_last)
      \<noteq> main_coords ascii_db 20 (4, 4, 40) fragile_l2data ids_1_to_101
        (map (l2_result ascii_db own_leaf) ids_1_to_101)
   \<and> main_validate ascii_db 20 echo_roots [ascii ''5'']
        (map (supervoxel_result ascii_db own_leaf) [ascii ''5''])
      \<noteq> main_validate ascii_db 1 echo_roots [ascii ''5'']
        (map (supervoxel_result ascii_db own_leaf) [ascii ''5''])"
proof -
  have p: "parse_id_file_coords ascii_db ids_1_to_101 = ids_1_to_101"
    by (simp add: ids_1_to_101_def parse_coords_str_nat)
  have ne: "ids_1_to_101 \<noteq> []" by (simp add: ids_1_to_101_def upt_rec)
  then have "mset first_done_last = mset ids_1_to_101"
    unfolding first_done_last_def by (rule mset_first_last)
  with p coords_rows_depend_on_order validator_header_depends_on_workers show ?thesis
    by simp
qed

end
